theory Spec2Isabelle
  imports Main
begin

section \<open>The folder and its files\<close>

text \<open>
  The program (\<^verbatim>\<open>DeleteImages.py\<close>) scans one folder, reads the pixel size of every file
  with an image extension and unlinks the files that are too small. The file system and
  the image library are its environment; the model makes them a value.

  A directory entry carries what the program can observe of it: its name, whether
  \<^verbatim>\<open>Path.is_file()\<close> holds, what \<^verbatim>\<open>Image.open(path).size\<close> gives (the
  pair (width, height), or the text of the exception it raises), and whether
  \<^verbatim>\<open>Path.unlink()\<close> raises (the text of the exception) or removes the entry.
  The entries of a folder are listed in the order \<^verbatim>\<open>iterdir()\<close> yields them.

  Strings are lists of \<^typ>\<open>char\<close>; a character stands for the code point with its
  number, so the model covers names and inputs over the code points 0 to 255.
\<close>

type_synonym dimensions = "int \<times> int"

record file_entry =
  fname :: string
  is_file :: bool
  img_size :: "string + dimensions"
  unlink_exn :: "string option"

text \<open>
  What the path given on the command line denotes: nothing, something that is not a
  directory, a directory that cannot be listed (\<^verbatim>\<open>iterdir()\<close> raises, and the program
  does not catch it), or a directory with its entries.
\<close>

datatype target =
    Absent
  | NotDirectory
  | Unreadable string
  | Directory "file_entry list"

section \<open>What the program prints and does\<close>

text \<open>
  One constructor for each \<^verbatim>\<open>print\<close> statement of the program, with the values the
  f-string interpolates.
\<close>

datatype notice =
    ErrNotExist string
  | ErrNotDir string
  | Scanning string
  | MinimumSize int int
  | DryRunMode
  | Rule
  | NoImageFiles
  | Found int
  | Blank
  | CouldNotRead string string string
  | WouldDelete string int int
  | Deleted string int int
  | ErrorDeleting string string
  | Kept string int int
  | SummaryHeader
  | WouldBeDeleted int
  | FilesDeleted int
  | FilesKept int
  | FilesWithErrors int
  | WarnPermanent int int
  | FromFolder string
  | OperationCancelled

text \<open>
  The trace of a run: what it prints, and every access to the file system, in order.
  \<open>Exists\<close> and \<open>IsDir\<close> are the two checks of the target path, \<open>IterDir\<close> the
  listing, \<open>IsFile\<close>, \<open>OpenImage\<close> and \<open>Unlink\<close> the accesses to one entry, and
  \<open>Input\<close> the prompt of \<^verbatim>\<open>input()\<close>.
\<close>

datatype event =
    Print notice
  | Exists
  | IsDir
  | IterDir
  | IsFile string
  | OpenImage string
  | Unlink string
  | Input

section \<open>Strings: suffix, lower, strip\<close>

text \<open>
  \<^verbatim>\<open>str.rfind\<close>: the index of the last occurrence, \<open>None\<close> for Python's -1.
\<close>

fun rfind :: "char \<Rightarrow> string \<Rightarrow> nat option" where
  "rfind c [] = None"
| "rfind c (x # xs) =
     (case rfind c xs of
        Some i \<Rightarrow> Some (Suc i)
      | None \<Rightarrow> if x = c then Some 0 else None)"

text \<open>
  \<^verbatim>\<open>PurePath.suffix\<close> of an entry of the folder (its name is the last path component):
  \<^verbatim>\<open>i = name.rfind('.'); return name[i:] if 0 < i < len(name) - 1 else ''\<close>.
\<close>

definition suffix :: "string \<Rightarrow> string" where
  "suffix name =
     (case rfind (CHR ''.'') name of
        None \<Rightarrow> []
      | Some i \<Rightarrow> if 0 < i \<and> Suc i < length name then drop i name else [])"

text \<open>
  \<^verbatim>\<open>str.lower\<close> on the code points 0 to 255: the letters A to Z, and the capital
  letters of Latin-1 (192 to 222 but the multiplication sign 215), move up by 32.
\<close>

definition lower_char :: "char \<Rightarrow> char" where
  "lower_char c =
     (let n = (of_char c :: nat)
      in if (65 \<le> n \<and> n \<le> 90) \<or> (192 \<le> n \<and> n \<le> 222 \<and> n \<noteq> 215)
         then char_of (n + 32) else c)"

definition lower :: "string \<Rightarrow> string" where
  "lower s = map lower_char s"

text \<open>
  \<^verbatim>\<open>str.strip()\<close> removes the whitespace at both ends; on the code points 0 to 255
  \<^verbatim>\<open>str.isspace\<close> holds for 9 to 13, 28 to 32, 133 and 160.
\<close>

definition isspace :: "char \<Rightarrow> bool" where
  "isspace c =
     (let n = (of_char c :: nat)
      in (9 \<le> n \<and> n \<le> 13) \<or> (28 \<le> n \<and> n \<le> 32) \<or> n = 133 \<or> n = 160)"

definition strip :: "string \<Rightarrow> string" where
  "strip s = rev (dropWhile isspace (rev (dropWhile isspace s)))"

section \<open>The program\<close>

subsection \<open>\<^verbatim>\<open>get_image_dimensions\<close> and \<^verbatim>\<open>is_image_file\<close>\<close>

text \<open>
  \<^verbatim>\<open>get_image_dimensions\<close> opens the file; when that raises it prints a warning with
  the path and the exception and returns \<open>None\<close>.
\<close>

definition get_image_dimensions :: "string \<Rightarrow> file_entry \<Rightarrow> event list \<times> dimensions option" where
  "get_image_dimensions folder_path f =
     (case img_size f of
        Inr wh \<Rightarrow> ([OpenImage (fname f)], Some wh)
      | Inl e \<Rightarrow> ([OpenImage (fname f), Print (CouldNotRead folder_path (fname f) e)], None))"

definition image_extensions :: "string list" where
  "image_extensions =
     [''.jpg'', ''.jpeg'', ''.png'', ''.bmp'', ''.gif'', ''.tiff'', ''.tif'', ''.webp'']"

definition is_image_file :: "string \<Rightarrow> bool" where
  "is_image_file name = (lower (suffix name) \<in> set image_extensions)"

subsection \<open>The loop of \<^verbatim>\<open>delete_small_images\<close>\<close>

text \<open>
  The state the loop updates: the entries of the folder, the three counters, and the
  trace so far.
\<close>

record scan_state =
  files :: "file_entry list"
  deleted_count :: int
  kept_count :: int
  error_count :: int
  log :: "event list"

text \<open>
  \<^verbatim>\<open>file_path.unlink()\<close>: it raises and leaves the folder as it is, or removes the
  entry. The names in a folder are distinct, so removing the path is removing the entry.
\<close>

definition unlink :: "file_entry \<Rightarrow> file_entry list \<Rightarrow> string + file_entry list" where
  "unlink f fs =
     (case unlink_exn f of
        Some e \<Rightarrow> Inl e
      | None \<Rightarrow> Inr (removeAll f fs))"

text \<open>The body of the \<^verbatim>\<open>for\<close> loop, for one candidate.\<close>

definition process_file ::
  "string \<Rightarrow> int \<Rightarrow> int \<Rightarrow> bool \<Rightarrow> file_entry \<Rightarrow> scan_state \<Rightarrow> scan_state" where
  "process_file folder_path min_width min_height dry_run f s =
     (case get_image_dimensions folder_path f of
        (evs, None) \<Rightarrow> s\<lparr>error_count := error_count s + 1, log := log s @ evs\<rparr>
      | (evs, Some (width, height)) \<Rightarrow>
          if width < min_width \<or> height < min_height then
            if dry_run then
              s\<lparr>log := log s @ evs @ [Print (WouldDelete (fname f) width height)]\<rparr>
            else
              (case unlink f (files s) of
                 Inr files' \<Rightarrow>
                   s\<lparr>files := files',
                     deleted_count := deleted_count s + 1,
                     log := log s @ evs @
                       [Unlink (fname f), Print (Deleted (fname f) width height)]\<rparr>
               | Inl e \<Rightarrow>
                   s\<lparr>error_count := error_count s + 1,
                     log := log s @ evs @
                       [Unlink (fname f), Print (ErrorDeleting (fname f) e)]\<rparr>)
          else
            s\<lparr>kept_count := kept_count s + 1,
              log := log s @ evs @ [Print (Kept (fname f) width height)]\<rparr>)"

fun scan ::
  "string \<Rightarrow> int \<Rightarrow> int \<Rightarrow> bool \<Rightarrow> file_entry list \<Rightarrow> scan_state \<Rightarrow> scan_state" where
  "scan folder_path min_width min_height dry_run [] s = s"
| "scan folder_path min_width min_height dry_run (f # fs) s =
     scan folder_path min_width min_height dry_run fs
       (process_file folder_path min_width min_height dry_run f s)"

subsection \<open>\<^verbatim>\<open>delete_small_images\<close>\<close>

text \<open>
  The function returns nothing; the model records which \<^verbatim>\<open>return\<close> it reached.
  \<open>Completed\<close> holds \<^verbatim>\<open>deleted_count\<close>, \<^verbatim>\<open>kept_count\<close> and \<^verbatim>\<open>error_count\<close> as they
  are when the summary is printed. \<open>Raised\<close> is an exception the program does not catch.
\<close>

datatype outcome =
    InvalidFolder
  | NoImages
  | Completed (deleted: int) (kept: int) (errored: int)
  | Cancelled
  | Raised string

record result =
  outcome :: outcome
  after :: target
  events :: "event list"

text \<open>The two list comprehensions: the regular files, then those with an image extension.\<close>

definition all_files :: "file_entry list \<Rightarrow> file_entry list" where
  "all_files entries = [f \<leftarrow> entries. is_file f]"

definition image_files :: "file_entry list \<Rightarrow> file_entry list" where
  "image_files entries = [f \<leftarrow> all_files entries. is_image_file (fname f)]"

definition banner :: "string \<Rightarrow> int \<Rightarrow> int \<Rightarrow> bool \<Rightarrow> event list" where
  "banner folder_path min_width min_height dry_run =
     [Exists, IsDir, Print (Scanning folder_path), Print (MinimumSize min_width min_height)]
     @ (if dry_run then [Print DryRunMode] else [])
     @ [Print Rule]"

definition listing :: "file_entry list \<Rightarrow> event list" where
  "listing entries = IterDir # map (\<lambda>f. IsFile (fname f)) entries"

definition summary :: "bool \<Rightarrow> int \<Rightarrow> int \<Rightarrow> int \<Rightarrow> int \<Rightarrow> event list" where
  "summary dry_run n nd nk ne =
     [Print Blank, Print Rule, Print SummaryHeader]
     @ (if dry_run then [Print (WouldBeDeleted (n - nk - ne))]
        else [Print (FilesDeleted nd)])
     @ [Print (FilesKept nk)]
     @ (if ne > 0 then [Print (FilesWithErrors ne)] else [])"

definition delete_small_images ::
  "string \<Rightarrow> int \<Rightarrow> int \<Rightarrow> bool \<Rightarrow> target \<Rightarrow> result" where
  "delete_small_images folder_path min_width min_height dry_run t =
     (case t of
        Absent \<Rightarrow>
          \<lparr>outcome = InvalidFolder, after = t,
           events = [Exists, Print (ErrNotExist folder_path)]\<rparr>
      | NotDirectory \<Rightarrow>
          \<lparr>outcome = InvalidFolder, after = t,
           events = [Exists, IsDir, Print (ErrNotDir folder_path)]\<rparr>
      | Unreadable e \<Rightarrow>
          \<lparr>outcome = Raised e, after = t,
           events = banner folder_path min_width min_height dry_run @ [IterDir]\<rparr>
      | Directory entries \<Rightarrow>
          (let start = banner folder_path min_width min_height dry_run @ listing entries;
               cands = image_files entries
           in if cands = [] then
                \<lparr>outcome = NoImages, after = t, events = start @ [Print NoImageFiles]\<rparr>
              else
                (let s = scan folder_path min_width min_height dry_run cands
                           \<lparr>files = entries, deleted_count = 0, kept_count = 0,
                            error_count = 0,
                            log = start @ [Print (Found (int (length cands))), Print Blank]\<rparr>
                 in \<lparr>outcome = Completed (deleted_count s) (kept_count s) (error_count s),
                     after = Directory (files s),
                     events = log s @ summary dry_run (int (length cands))
                                (deleted_count s) (kept_count s) (error_count s)\<rparr>)))"

subsection \<open>\<^verbatim>\<open>main\<close>\<close>

text \<open>
  The parsed command line: the folder, \<^verbatim>\<open>--width\<close> and \<^verbatim>\<open>--height\<close> (any integer,
  400 when absent) and \<^verbatim>\<open>--dry-run\<close>. The second argument of \<open>main\<close> is the line
  \<^verbatim>\<open>input()\<close> reads, \<open>None\<close> at the end of the input, where it raises.
\<close>

record args =
  arg_folder :: string
  arg_width :: int
  arg_height :: int
  arg_dry_run :: bool

text \<open>What \<open>main\<close> prints before it reads the answer, and the prompt.\<close>

definition asked :: "args \<Rightarrow> event list" where
  "asked a = [Print (WarnPermanent (arg_width a) (arg_height a)),
              Print (FromFolder (arg_folder a)), Input]"

definition main :: "args \<Rightarrow> string option \<Rightarrow> target \<Rightarrow> result" where
  "main a stdin t =
     (if \<not> arg_dry_run a then
        (case stdin of
           None \<Rightarrow> \<lparr>outcome = Raised ''EOFError'', after = t, events = asked a\<rparr>
         | Some line \<Rightarrow>
             (let response = strip (lower line)
              in if response \<notin> set [''yes'', ''y''] then
                   \<lparr>outcome = Cancelled, after = t,
                    events = asked a @ [Print OperationCancelled]\<rparr>
                 else
                   (let r = delete_small_images (arg_folder a) (arg_width a)
                              (arg_height a) (arg_dry_run a) t
                    in r\<lparr>events := asked a @ events r\<rparr>)))
      else
        delete_small_images (arg_folder a) (arg_width a) (arg_height a) (arg_dry_run a) t)"

section \<open>Vocabulary for the properties\<close>

text \<open>
  The three ways the loop body can go for a candidate, read off the entry: the reader
  raises; the size is read and is below a threshold; the size is read and is not.
\<close>

definition unreadable :: "file_entry \<Rightarrow> bool" where
  "unreadable f = (case img_size f of Inl e \<Rightarrow> True | Inr wh \<Rightarrow> False)"

definition undersized :: "int \<Rightarrow> int \<Rightarrow> file_entry \<Rightarrow> bool" where
  "undersized min_width min_height f =
     (case img_size f of
        Inl e \<Rightarrow> False
      | Inr (width, height) \<Rightarrow> width < min_width \<or> height < min_height)"

definition large_enough :: "int \<Rightarrow> int \<Rightarrow> file_entry \<Rightarrow> bool" where
  "large_enough min_width min_height f =
     (case img_size f of
        Inl e \<Rightarrow> False
      | Inr (width, height) \<Rightarrow> \<not> (width < min_width \<or> height < min_height))"

text \<open>
  In a run that is not a dry run, an undersized candidate is removed when its unlink
  succeeds; a candidate is in error when the reader fails on it, or when it is
  undersized and its unlink fails.
\<close>

definition removed :: "int \<Rightarrow> int \<Rightarrow> bool \<Rightarrow> file_entry \<Rightarrow> bool" where
  "removed min_width min_height dry_run f =
     (\<not> dry_run \<and> undersized min_width min_height f \<and> unlink_exn f = None)"

definition failing :: "int \<Rightarrow> int \<Rightarrow> bool \<Rightarrow> file_entry \<Rightarrow> bool" where
  "failing min_width min_height dry_run f =
     (unreadable f \<or> (\<not> dry_run \<and> undersized min_width min_height f \<and> unlink_exn f \<noteq> None))"

text \<open>What one pass of the loop body appends to the trace.\<close>

definition fresh :: scan_state where
  "fresh = \<lparr>files = [], deleted_count = 0, kept_count = 0, error_count = 0, log = []\<rparr>"

definition file_events :: "string \<Rightarrow> int \<Rightarrow> int \<Rightarrow> bool \<Rightarrow> file_entry \<Rightarrow> event list" where
  "file_events folder_path min_width min_height dry_run f =
     log (process_file folder_path min_width min_height dry_run f fresh)"

text \<open>
  The entry an event is about, for the events of the loop: opening, unlinking, and the
  notices that name a file. The checks of the target path, the listing and the summary
  are about no entry.
\<close>

definition subject :: "event \<Rightarrow> string option" where
  "subject ev =
     (case ev of
        OpenImage n \<Rightarrow> Some n
      | Unlink n \<Rightarrow> Some n
      | Print (CouldNotRead p n e) \<Rightarrow> Some n
      | Print (WouldDelete n w h) \<Rightarrow> Some n
      | Print (Deleted n w h) \<Rightarrow> Some n
      | Print (ErrorDeleting n e) \<Rightarrow> Some n
      | Print (Kept n w h) \<Rightarrow> Some n
      | _ \<Rightarrow> None)"

definition is_would_delete :: "event \<Rightarrow> bool" where
  "is_would_delete ev = (case ev of Print (WouldDelete n w h) \<Rightarrow> True | _ \<Rightarrow> False)"

definition is_delete_error :: "event \<Rightarrow> bool" where
  "is_delete_error ev = (case ev of Print (ErrorDeleting n e) \<Rightarrow> True | _ \<Rightarrow> False)"

definition is_unlink :: "event \<Rightarrow> bool" where
  "is_unlink ev = (case ev of Unlink n \<Rightarrow> True | _ \<Rightarrow> False)"

definition opened :: "event list \<Rightarrow> string list" where
  "opened evs = concat (map (\<lambda>ev. case ev of OpenImage n \<Rightarrow> [n] | _ \<Rightarrow> []) evs)"

text \<open>
  The count the summary of a dry run is meant to show, in the words of the
  specification: the candidates whose size is read and is below a threshold.
\<close>

definition would_delete_spec :: "int \<Rightarrow> int \<Rightarrow> file_entry list \<Rightarrow> int" where
  "would_delete_spec min_width min_height cands =
     int (length [f \<leftarrow> cands. undersized min_width min_height f])"

section \<open>Example folders\<close>

text \<open>
  A folder in the manner of the scenarios of the specification: a large image, a small
  one, a corrupt one, a small one that cannot be unlinked, one of exactly 400 by 400, a
  text file, and a subdirectory with an image name.
\<close>

definition a_jpg :: file_entry where
  "a_jpg = \<lparr>fname = ''a.jpg'', is_file = True, img_size = Inr (800, 600), unlink_exn = None\<rparr>"

definition b_png :: file_entry where
  "b_png = \<lparr>fname = ''b.png'', is_file = True, img_size = Inr (200, 200), unlink_exn = None\<rparr>"

definition c_webp :: file_entry where
  "c_webp = \<lparr>fname = ''c.webp'', is_file = True,
             img_size = Inl ''cannot identify image file'', unlink_exn = None\<rparr>"

definition d_gif :: file_entry where
  "d_gif = \<lparr>fname = ''d.GIF'', is_file = True, img_size = Inr (100, 900),
            unlink_exn = Some ''Permission denied''\<rparr>"

definition e_bmp :: file_entry where
  "e_bmp = \<lparr>fname = ''e.bmp'', is_file = True, img_size = Inr (400, 400), unlink_exn = None\<rparr>"

definition notes_txt :: file_entry where
  "notes_txt = \<lparr>fname = ''notes.txt'', is_file = True,
                img_size = Inl ''cannot identify image file'', unlink_exn = None\<rparr>"

definition thumbs_png :: file_entry where
  "thumbs_png = \<lparr>fname = ''thumbs.png'', is_file = False,
                 img_size = Inl ''Is a directory'', unlink_exn = Some ''Is a directory''\<rparr>"

definition pics :: "file_entry list" where
  "pics = [a_jpg, notes_txt, b_png, c_webp, thumbs_png, d_gif, e_bmp]"

definition delete_args :: args where
  "delete_args = \<lparr>arg_folder = ''pics'', arg_width = 400, arg_height = 400, arg_dry_run = False\<rparr>"

text \<open>
  The same folder without the file that cannot be unlinked, and a command line with a
  negative width and a zero height.
\<close>

definition small_args :: args where
  "small_args = \<lparr>arg_folder = ''pics'', arg_width = - 5, arg_height = 0, arg_dry_run = False\<rparr>"

definition sound_pics :: "file_entry list" where
  "sound_pics = [a_jpg, notes_txt, b_png, c_webp, thumbs_png, e_bmp]"

section \<open>The loop, one candidate at a time\<close>

lemma classes_exclusive:
  "(unreadable f \<and> \<not> undersized mw mh f \<and> \<not> large_enough mw mh f)
   \<or> (\<not> unreadable f \<and> undersized mw mh f \<and> \<not> large_enough mw mh f)
   \<or> (\<not> unreadable f \<and> \<not> undersized mw mh f \<and> large_enough mw mh f)"
  by (auto simp: unreadable_def undersized_def large_enough_def split: sum.splits prod.splits)

lemma process_file_unreadable:
  "img_size f = Inl e \<Longrightarrow>
   process_file p mw mh dry f s =
     s\<lparr>error_count := error_count s + 1,
       log := log s @ [OpenImage (fname f), Print (CouldNotRead p (fname f) e)]\<rparr>"
  by (simp add: process_file_def get_image_dimensions_def)

lemma process_file_kept:
  "img_size f = Inr (w, h) \<Longrightarrow> \<not> (w < mw \<or> h < mh) \<Longrightarrow>
   process_file p mw mh dry f s =
     s\<lparr>kept_count := kept_count s + 1,
       log := log s @ [OpenImage (fname f), Print (Kept (fname f) w h)]\<rparr>"
  by (simp add: process_file_def get_image_dimensions_def)

lemma process_file_would_delete:
  "img_size f = Inr (w, h) \<Longrightarrow> w < mw \<or> h < mh \<Longrightarrow>
   process_file p mw mh True f s =
     s\<lparr>log := log s @ [OpenImage (fname f), Print (WouldDelete (fname f) w h)]\<rparr>"
  by (simp add: process_file_def get_image_dimensions_def)

lemma process_file_deleted:
  "img_size f = Inr (w, h) \<Longrightarrow> w < mw \<or> h < mh \<Longrightarrow> unlink_exn f = None \<Longrightarrow>
   process_file p mw mh False f s =
     s\<lparr>files := removeAll f (files s), deleted_count := deleted_count s + 1,
       log := log s @ [OpenImage (fname f), Unlink (fname f), Print (Deleted (fname f) w h)]\<rparr>"
  by (simp add: process_file_def get_image_dimensions_def unlink_def)

lemma process_file_delete_error:
  "img_size f = Inr (w, h) \<Longrightarrow> w < mw \<or> h < mh \<Longrightarrow> unlink_exn f = Some e \<Longrightarrow>
   process_file p mw mh False f s =
     s\<lparr>error_count := error_count s + 1,
       log := log s @ [OpenImage (fname f), Unlink (fname f), Print (ErrorDeleting (fname f) e)]\<rparr>"
  by (simp add: process_file_def get_image_dimensions_def unlink_def)

lemmas process_file_cases =
  process_file_unreadable process_file_kept process_file_would_delete
  process_file_deleted process_file_delete_error

lemma process_file_split:
  obtains (unreadable) e where "img_size f = Inl e"
  | (kept) w h where "img_size f = Inr (w, h)" "\<not> (w < mw \<or> h < mh)"
  | (would) w h where "img_size f = Inr (w, h)" "w < mw \<or> h < mh" "dry"
  | (deleted) w h where "img_size f = Inr (w, h)" "w < mw \<or> h < mh" "\<not> dry" "unlink_exn f = None"
  | (failed) w h e where "img_size f = Inr (w, h)" "w < mw \<or> h < mh" "\<not> dry" "unlink_exn f = Some e"
proof (cases "img_size f")
  case (Inl e)
  then show ?thesis using unreadable by blast
next
  case (Inr wh)
  obtain w h where wh: "wh = (w, h)" by (cases wh)
  show ?thesis
  proof (cases "w < mw \<or> h < mh")
    case False
    with Inr wh show ?thesis using kept by blast
  next
    case True
    show ?thesis
    proof (cases dry)
      case True
      with \<open>w < mw \<or> h < mh\<close> Inr wh show ?thesis using would by blast
    next
      case False
      with \<open>w < mw \<or> h < mh\<close> Inr wh show ?thesis
        using deleted failed by (cases "unlink_exn f") blast+
    qed
  qed
qed

lemma kept_count_process_file:
  "kept_count (process_file p mw mh dry f s) =
     kept_count s + (if large_enough mw mh f then 1 else 0)"
  by (rule process_file_split [where f = f and mw = mw and mh = mh and dry = dry])
     (simp_all add: process_file_cases large_enough_def)

lemma error_count_process_file:
  "error_count (process_file p mw mh dry f s) =
     error_count s +
       (if unreadable f \<or> (\<not> dry \<and> undersized mw mh f \<and> unlink_exn f \<noteq> None) then 1 else 0)"
  by (rule process_file_split [where f = f and mw = mw and mh = mh and dry = dry])
     (simp_all add: process_file_cases unreadable_def undersized_def)

lemma deleted_count_process_file:
  "deleted_count (process_file p mw mh dry f s) =
     deleted_count s +
       (if \<not> dry \<and> undersized mw mh f \<and> unlink_exn f = None then 1 else 0)"
  by (rule process_file_split [where f = f and mw = mw and mh = mh and dry = dry])
     (simp_all add: process_file_cases undersized_def)

lemma files_process_file:
  "files (process_file p mw mh dry f s) =
     (if \<not> dry \<and> undersized mw mh f \<and> unlink_exn f = None
      then removeAll f (files s) else files s)"
  by (rule process_file_split [where f = f and mw = mw and mh = mh and dry = dry])
     (simp_all add: process_file_cases undersized_def)

lemma log_process_file:
  "log (process_file p mw mh dry f s) = log s @ file_events p mw mh dry f"
  by (rule process_file_split [where f = f and mw = mw and mh = mh and dry = dry])
     (simp_all add: process_file_cases file_events_def fresh_def)

lemma kept_count_scan:
  "kept_count (scan p mw mh dry cs s) =
     kept_count s + int (length (filter (large_enough mw mh) cs))"
  by (induction cs arbitrary: s) (simp_all add: kept_count_process_file)

lemma error_count_scan:
  "error_count (scan p mw mh dry cs s) =
     error_count s + int (length [f \<leftarrow> cs.
        unreadable f \<or> (\<not> dry \<and> undersized mw mh f \<and> unlink_exn f \<noteq> None)])"
  by (induction cs arbitrary: s) (simp_all add: error_count_process_file)

lemma deleted_count_scan:
  "deleted_count (scan p mw mh dry cs s) =
     deleted_count s + int (length [f \<leftarrow> cs.
        \<not> dry \<and> undersized mw mh f \<and> unlink_exn f = None])"
  by (induction cs arbitrary: s) (simp_all add: deleted_count_process_file)

lemma files_scan:
  "files (scan p mw mh dry cs s) =
     [e \<leftarrow> files s. \<not> (e \<in> set cs \<and> \<not> dry \<and> undersized mw mh e \<and> unlink_exn e = None)]"
proof (induction cs arbitrary: s)
  case Nil
  show ?case by simp
next
  case (Cons c cs)
  show ?case
    by (simp add: Cons.IH files_process_file removeAll_filter_not_eq) (auto intro: filter_cong)
qed

lemma log_scan:
  "log (scan p mw mh dry cs s) = log s @ concat (map (file_events p mw mh dry) cs)"
  by (induction cs arbitrary: s) (simp_all add: log_process_file)

section \<open>The whole run\<close>

lemma file_events_unreadable:
  "img_size f = Inl e \<Longrightarrow>
   file_events p mw mh dry f = [OpenImage (fname f), Print (CouldNotRead p (fname f) e)]"
  by (simp add: file_events_def fresh_def process_file_cases)

lemma file_events_kept:
  "img_size f = Inr (w, h) \<Longrightarrow> \<not> (w < mw \<or> h < mh) \<Longrightarrow>
   file_events p mw mh dry f = [OpenImage (fname f), Print (Kept (fname f) w h)]"
  by (simp add: file_events_def fresh_def process_file_cases)

lemma file_events_would_delete:
  "img_size f = Inr (w, h) \<Longrightarrow> w < mw \<or> h < mh \<Longrightarrow>
   file_events p mw mh True f = [OpenImage (fname f), Print (WouldDelete (fname f) w h)]"
  by (simp add: file_events_def fresh_def process_file_cases)

lemma file_events_deleted:
  "img_size f = Inr (w, h) \<Longrightarrow> w < mw \<or> h < mh \<Longrightarrow> unlink_exn f = None \<Longrightarrow>
   file_events p mw mh False f =
     [OpenImage (fname f), Unlink (fname f), Print (Deleted (fname f) w h)]"
  by (simp add: file_events_def fresh_def process_file_cases)

lemma file_events_delete_error:
  "img_size f = Inr (w, h) \<Longrightarrow> w < mw \<or> h < mh \<Longrightarrow> unlink_exn f = Some e \<Longrightarrow>
   file_events p mw mh False f =
     [OpenImage (fname f), Unlink (fname f), Print (ErrorDeleting (fname f) e)]"
  by (simp add: file_events_def fresh_def process_file_cases)

lemmas file_events_cases =
  file_events_unreadable file_events_kept file_events_would_delete
  file_events_deleted file_events_delete_error

lemma run_directory:
  assumes "image_files entries \<noteq> []"
  shows "delete_small_images p mw mh dry (Directory entries) =
    \<lparr>outcome = Completed
        (int (length [f \<leftarrow> image_files entries. removed mw mh dry f]))
        (int (length [f \<leftarrow> image_files entries. large_enough mw mh f]))
        (int (length [f \<leftarrow> image_files entries. failing mw mh dry f])),
     after = Directory [e \<leftarrow> entries. \<not> (e \<in> set (image_files entries) \<and> removed mw mh dry e)],
     events = banner p mw mh dry @ listing entries
        @ [Print (Found (int (length (image_files entries)))), Print Blank]
        @ concat (map (file_events p mw mh dry) (image_files entries))
        @ summary dry (int (length (image_files entries)))
            (int (length [f \<leftarrow> image_files entries. removed mw mh dry f]))
            (int (length [f \<leftarrow> image_files entries. large_enough mw mh f]))
            (int (length [f \<leftarrow> image_files entries. failing mw mh dry f]))\<rparr>"
  using assms
  by (simp add: delete_small_images_def Let_def kept_count_scan error_count_scan
      deleted_count_scan files_scan log_scan removed_def failing_def)

lemma run_no_images:
  assumes "image_files entries = []"
  shows "delete_small_images p mw mh dry (Directory entries) =
    \<lparr>outcome = NoImages, after = Directory entries,
     events = banner p mw mh dry @ listing entries @ [Print NoImageFiles]\<rparr>"
  using assms by (simp add: delete_small_images_def Let_def)

lemma counts_partition:
  "int (length [f \<leftarrow> cs. removed mw mh dry f]) + int (length [f \<leftarrow> cs. large_enough mw mh f])
     + int (length [f \<leftarrow> cs. failing mw mh dry f])
   = int (length cs) - (if dry then int (length [f \<leftarrow> cs. undersized mw mh f]) else 0)"
proof (induction cs)
  case Nil
  show ?case by simp
next
  case (Cons c cs)
  from classes_exclusive [of c mw mh] Cons show ?case
    by (cases "unlink_exn c") (auto simp: removed_def failing_def)
qed

section \<open>The counters partition the candidates\<close>

lemma would_delete_file_events:
  "length (filter is_would_delete (file_events p mw mh dry f)) =
     (if dry \<and> undersized mw mh f then 1 else 0)"
  by (rule process_file_split [where f = f and mw = mw and mh = mh and dry = dry])
     (simp_all add: file_events_cases undersized_def is_would_delete_def)

lemma would_delete_concat:
  "int (length (filter is_would_delete (concat (map (file_events p mw mh dry) cs)))) =
     (if dry then int (length [f \<leftarrow> cs. undersized mw mh f]) else 0)"
  by (induction cs) (simp_all add: would_delete_file_events)

lemma would_delete_frame:
  "filter is_would_delete (banner p mw mh dry) = []"
  "filter is_would_delete (listing entries) = []"
  "filter is_would_delete (summary dry n d k e) = []"
  by (simp_all add: banner_def listing_def summary_def is_would_delete_def)

lemma would_delete_events:
  assumes "image_files entries \<noteq> []"
  shows "int (length (filter is_would_delete
           (events (delete_small_images p mw mh dry (Directory entries))))) =
         (if dry then int (length [f \<leftarrow> image_files entries. undersized mw mh f]) else 0)"
  by (simp add: run_directory [OF assms] would_delete_frame would_delete_concat
      is_would_delete_def)

lemma one_counter_per_file:
  "(deleted_count (process_file p mw mh dry f s) - deleted_count s,
    int (length (filter is_would_delete (file_events p mw mh dry f))),
    kept_count (process_file p mw mh dry f s) - kept_count s,
    error_count (process_file p mw mh dry f s) - error_count s)
   \<in> (if dry then {(0, 1, 0, 0), (0, 0, 1, 0), (0, 0, 0, 1)}
       else {(1, 0, 0, 0), (0, 0, 1, 0), (0, 0, 0, 1)})"
  using classes_exclusive [of f mw mh]
  by (cases "unlink_exn f")
     (auto simp: deleted_count_process_file kept_count_process_file
       error_count_process_file would_delete_file_events)

text \<open>
  C1. A run on a folder with at least one candidate reaches the summary, and its counters
  partition the candidates.
\<close>

theorem counters_partition_candidates:
  assumes "image_files entries \<noteq> []"
    and "r = delete_small_images p mw mh dry (Directory entries)"
    and "n = int (length (image_files entries))"
    and "w = int (length (filter is_would_delete (events r)))"
  shows "\<exists>d k e. outcome r = Completed d k e
           \<and> (if dry then d = 0 \<and> k + w + e = n \<and> Print (WouldBeDeleted w) \<in> set (events r)
               else w = 0 \<and> k + d + e = n \<and> Print (FilesDeleted d) \<in> set (events r))
           \<and> Print (FilesKept k) \<in> set (events r)
           \<and> (\<forall>f s.
                 (deleted_count (process_file p mw mh dry f s) - deleted_count s,
                  int (length (filter is_would_delete (file_events p mw mh dry f))),
                  kept_count (process_file p mw mh dry f s) - kept_count s,
                  error_count (process_file p mw mh dry f s) - error_count s)
                 \<in> (if dry then {(0, 1, 0, 0), (0, 0, 1, 0), (0, 0, 0, 1)}
                     else {(1, 0, 0, 0), (0, 0, 1, 0), (0, 0, 0, 1)}))"
proof -
  let ?cs = "image_files entries"
  let ?d = "int (length [f \<leftarrow> ?cs. removed mw mh dry f])"
  let ?k = "int (length [f \<leftarrow> ?cs. large_enough mw mh f])"
  let ?e = "int (length [f \<leftarrow> ?cs. failing mw mh dry f])"
  have out: "outcome r = Completed ?d ?k ?e"
    by (simp add: assms(2) run_directory [OF assms(1)])
  have w: "w = (if dry then int (length [f \<leftarrow> ?cs. undersized mw mh f]) else 0)"
    by (simp only: assms(2,4) would_delete_events [OF assms(1)])
  have sum: "?d + ?k + ?e = n - w"
    by (simp only: w assms(3) counts_partition)
  have d0: "dry \<Longrightarrow> ?d = 0"
    by (simp add: removed_def)
  have shown: "Print (FilesKept ?k) \<in> set (events r)"
    "dry \<Longrightarrow> Print (WouldBeDeleted (n - ?k - ?e)) \<in> set (events r)"
    "\<not> dry \<Longrightarrow> Print (FilesDeleted ?d) \<in> set (events r)"
    by (simp_all add: assms(2,3) run_directory [OF assms(1)] summary_def)
  have "if dry then ?d = 0 \<and> ?k + w + ?e = n \<and> Print (WouldBeDeleted w) \<in> set (events r)
        else w = 0 \<and> ?k + ?d + ?e = n \<and> Print (FilesDeleted ?d) \<in> set (events r)"
  proof (cases dry)
    case True
    with sum d0 have "w = n - ?k - ?e" by simp
    with True sum d0 shown(2) show ?thesis by simp
  next
    case False
    with w have "w = 0" by simp
    with False sum shown(3) show ?thesis by simp
  qed
  with out shown(1) one_counter_per_file show ?thesis by blast
qed

theorem counters_partition_candidates_witness:
  "outcome (delete_small_images ''pics'' 400 400 False (Directory pics)) = Completed 1 2 2
   \<and> outcome (delete_small_images ''pics'' 400 400 True (Directory pics)) = Completed 0 2 1
   \<and> Print (WouldBeDeleted 2) \<in> set (events (delete_small_images ''pics'' 400 400 True (Directory pics)))
   \<and> int (length (image_files pics)) = 5"
proof -
  have cands: "image_files pics = [a_jpg, b_png, c_webp, d_gif, e_bmp]"
    by code_simp
  then have ne: "image_files pics \<noteq> []" by simp
  have 1: "outcome (delete_small_images ''pics'' 400 400 False (Directory pics)) = Completed 1 2 2"
    by code_simp
  have 2: "outcome (delete_small_images ''pics'' 400 400 True (Directory pics)) = Completed 0 2 1"
    by code_simp
  from counters_partition_candidates [OF ne refl refl refl, of "''pics''" 400 400 True] 2
  have "Print (WouldBeDeleted 2) \<in> set (events (delete_small_images ''pics'' 400 400 True (Directory pics)))"
    by (auto simp: cands)
  with 1 2 cands show ?thesis by simp
qed

section \<open>An invalid folder\<close>

text \<open>
  C4. When the target does not exist or is not a directory, the run stops at the check,
  whatever the thresholds and the dry-run flag: it prints the one error, has no counters,
  and leaves the target as it is; the trace has no listing, no access to an entry and no
  notice about a file.
\<close>

theorem invalid_folder_stops_run:
  assumes "t = Absent \<or> t = NotDirectory"
  shows "outcome (delete_small_images p mw mh dry t) = InvalidFolder
       \<and> after (delete_small_images p mw mh dry t) = t
       \<and> events (delete_small_images p mw mh dry t) =
           (if t = Absent then [Exists, Print (ErrNotExist p)]
            else [Exists, IsDir, Print (ErrNotDir p)])
       \<and> [ev \<leftarrow> events (delete_small_images p mw mh dry t). subject ev \<noteq> None] = []
       \<and> IterDir \<notin> set (events (delete_small_images p mw mh dry t))"
  using assms by (auto simp: delete_small_images_def subject_def)

theorem invalid_folder_stops_run_witness:
  "outcome (delete_small_images ''gone'' 400 400 False Absent) = InvalidFolder
   \<and> after (delete_small_images ''gone'' 400 400 False Absent) = Absent
   \<and> events (delete_small_images ''gone'' 400 400 False Absent) =
       [Exists, Print (ErrNotExist ''gone'')]
   \<and> outcome (delete_small_images ''a.txt'' 1 7 True NotDirectory) = InvalidFolder
   \<and> events (delete_small_images ''a.txt'' 1 7 True NotDirectory) =
       [Exists, IsDir, Print (ErrNotDir ''a.txt'')]"
  using invalid_folder_stops_run [of Absent "''gone''" 400 400 False]
    invalid_folder_stops_run [of NotDirectory "''a.txt''" 1 7 True]
  by simp

section \<open>Candidates are chosen by extension\<close>

lemma subject_file_events:
  "ev \<in> set (file_events p mw mh dry f) \<Longrightarrow> subject ev = Some (fname f)"
  by (rule process_file_split [where f = f and mw = mw and mh = mh and dry = dry])
     (auto simp: file_events_cases subject_def)

lemma subject_frame:
  "ev \<in> set (banner p mw mh dry) \<Longrightarrow> subject ev = None"
  "ev \<in> set (listing entries) \<Longrightarrow> subject ev = None"
  "ev \<in> set (summary dry n d k e) \<Longrightarrow> subject ev = None"
  by (auto simp: banner_def listing_def summary_def subject_def split: if_splits)

lemma image_files_iff:
  "f \<in> set (image_files entries) \<longleftrightarrow> f \<in> set entries \<and> is_file f \<and> is_image_file (fname f)"
  by (auto simp: image_files_def all_files_def)

lemma image_files_idem: "image_files (image_files entries) = image_files entries"
  by (induction entries) (simp_all add: image_files_def all_files_def)

lemma subject_run:
  assumes "ev \<in> set (events (delete_small_images p mw mh dry (Directory entries)))"
    and "subject ev = Some name"
  shows "\<exists>f \<in> set (image_files entries). fname f = name"
proof (cases "image_files entries = []")
  case True
  with assms(1) have "ev \<in> set (banner p mw mh dry) \<or> ev \<in> set (listing entries)
      \<or> ev = Print NoImageFiles"
    by (auto simp: run_no_images)
  then have "subject ev = None"
    using subject_frame(1,2) by (auto simp: subject_def)
  with assms(2) show ?thesis by simp
next
  case False
  let ?sum = "summary dry (int (length (image_files entries)))
            (int (length [f \<leftarrow> image_files entries. removed mw mh dry f]))
            (int (length [f \<leftarrow> image_files entries. large_enough mw mh f]))
            (int (length [f \<leftarrow> image_files entries. failing mw mh dry f]))"
  from assms(1) consider
      (frame) "ev \<in> set (banner p mw mh dry) \<or> ev \<in> set (listing entries) \<or> ev \<in> set ?sum"
    | (found) "ev = Print (Found (int (length (image_files entries)))) \<or> ev = Print Blank"
    | (entry) f where "f \<in> set (image_files entries)" "ev \<in> set (file_events p mw mh dry f)"
    by (auto simp: run_directory [OF False])
  then show ?thesis
  proof cases
    case frame
    then have "subject ev = None" using subject_frame by blast
    with assms(2) show ?thesis by simp
  next
    case found
    then have "subject ev = None" by (auto simp: subject_def)
    with assms(2) show ?thesis by simp
  next
    case entry
    from entry(2) have "subject ev = Some (fname f)" by (rule subject_file_events)
    with assms(2) entry(1) show ?thesis by auto
  qed
qed

lemma after_run:
  "after (delete_small_images p mw mh dry (Directory entries)) =
     Directory [e \<leftarrow> entries. \<not> (e \<in> set (image_files entries) \<and> removed mw mh dry e)]"
proof (cases "image_files entries = []")
  case True
  then show ?thesis by (simp add: run_no_images)
next
  case False
  then show ?thesis by (simp add: run_directory)
qed

lemma outcome_run_candidates_only:
  "outcome (delete_small_images p mw mh dry (Directory entries)) =
   outcome (delete_small_images p mw mh dry (Directory (image_files entries)))"
proof (cases "image_files entries = []")
  case True
  then have "image_files (image_files entries) = []"
    unfolding image_files_idem .
  from run_no_images [OF True] run_no_images [OF this] show ?thesis
    by (simp only: result.simps)
next
  case False
  then have "image_files (image_files entries) \<noteq> []" by (simp add: image_files_idem)
  from run_directory [OF False] run_directory [OF this] show ?thesis
    by (simp add: image_files_idem)
qed

text \<open>
  C3. An entry of the folder is a candidate exactly when it is a regular file whose
  suffix, in lower case, is one of the eight extensions. A name with any other suffix is
  never opened, never unlinked and named in no notice; the entries with such names are all
  still in the folder after the run; and the counters are those of a run on the
  candidates alone.
\<close>

theorem candidates_by_extension:
  assumes "r = delete_small_images p mw mh dry (Directory entries)"
  shows "set image_extensions =
           {''.jpg'', ''.jpeg'', ''.png'', ''.bmp'', ''.gif'', ''.tiff'', ''.tif'', ''.webp''}
       \<and> (f \<in> set (image_files entries) \<longleftrightarrow>
            f \<in> set entries \<and> is_file f \<and> lower (suffix (fname f)) \<in> set image_extensions)
       \<and> (lower (suffix name) \<notin> set image_extensions \<longrightarrow>
            [ev \<leftarrow> events r. subject ev = Some name] = []
            \<and> (\<exists>fs. after r = Directory fs
                  \<and> [e \<leftarrow> fs. fname e = name] = [e \<leftarrow> entries. fname e = name]))
       \<and> outcome r = outcome (delete_small_images p mw mh dry (Directory (image_files entries)))"
proof -
  have exts: "set image_extensions =
      {''.jpg'', ''.jpeg'', ''.png'', ''.bmp'', ''.gif'', ''.tiff'', ''.tif'', ''.webp''}"
    by (simp add: image_extensions_def)
  have sel: "f \<in> set (image_files entries) \<longleftrightarrow>
      f \<in> set entries \<and> is_file f \<and> lower (suffix (fname f)) \<in> set image_extensions"
    by (simp add: image_files_iff is_image_file_def)
  have other: "[ev \<leftarrow> events r. subject ev = Some name] = []
      \<and> (\<exists>fs. after r = Directory fs
            \<and> [e \<leftarrow> fs. fname e = name] = [e \<leftarrow> entries. fname e = name])"
    if "lower (suffix name) \<notin> set image_extensions"
  proof -
    from that have no: "\<not> is_image_file name" by (simp add: is_image_file_def)
    have "subject ev \<noteq> Some name" if "ev \<in> set (events r)" for ev
    proof
      assume "subject ev = Some name"
      with that assms obtain c where "c \<in> set (image_files entries)" "fname c = name"
        using subject_run by blast
      with no show False by (simp add: image_files_iff)
    qed
    then have quiet: "[ev \<leftarrow> events r. subject ev = Some name] = []"
      by (simp add: filter_empty_conv)
    have "[e \<leftarrow> [e \<leftarrow> entries. \<not> (e \<in> set (image_files entries) \<and> removed mw mh dry e)].
            fname e = name] = [e \<leftarrow> entries. fname e = name]"
      using no by (auto simp: image_files_iff intro: filter_cong)
    with quiet show ?thesis by (simp add: assms after_run)
  qed
  from exts sel other outcome_run_candidates_only [of p mw mh dry entries] assms
  show ?thesis by blast
qed

theorem candidates_by_extension_witness:
  "image_files pics = [a_jpg, b_png, c_webp, d_gif, e_bmp]
   \<and> [ev \<leftarrow> events (delete_small_images ''pics'' 400 400 False (Directory pics)).
        subject ev = Some ''notes.txt''] = []
   \<and> notes_txt \<in> set (image_files (notes_txt # pics)) = False
   \<and> outcome (delete_small_images ''pics'' 400 400 False (Directory pics)) =
       outcome (delete_small_images ''pics'' 400 400 False
         (Directory [a_jpg, b_png, c_webp, d_gif, e_bmp]))"
proof -
  have cands: "image_files pics = [a_jpg, b_png, c_webp, d_gif, e_bmp]"
    by code_simp
  have nontxt: "lower (suffix ''notes.txt'') \<notin> set image_extensions"
    by code_simp
  have name: "fname notes_txt = ''notes.txt''"
    by (simp add: notes_txt_def)
  note a = candidates_by_extension [OF refl, of notes_txt "notes_txt # pics" "''notes.txt''"
      "''pics''" 400 400 False]
  note b = candidates_by_extension [OF refl, of notes_txt pics "''notes.txt''"
      "''pics''" 400 400 False]
  from a nontxt have 3: "notes_txt \<in> set (image_files (notes_txt # pics)) = False"
    by (simp add: name)
  from b nontxt have 2: "[ev \<leftarrow> events (delete_small_images ''pics'' 400 400 False (Directory pics)).
        subject ev = Some ''notes.txt''] = []"
    by blast
  from b have 4: "outcome (delete_small_images ''pics'' 400 400 False (Directory pics)) =
       outcome (delete_small_images ''pics'' 400 400 False (Directory (image_files pics)))"
    by blast
  from cands 2 3 4 show ?thesis by simp
qed

section \<open>Errors on single files\<close>

lemma opened_simps:
  "opened [] = []"
  "opened (ev # evs) = (case ev of OpenImage n \<Rightarrow> [n] | _ \<Rightarrow> []) @ opened evs"
  by (simp_all add: opened_def)

lemma opened_append: "opened (xs @ ys) = opened xs @ opened ys"
  by (simp add: opened_def)

lemma opened_file_events: "opened (file_events p mw mh dry f) = [fname f]"
  by (rule process_file_split [where f = f and mw = mw and mh = mh and dry = dry])
     (simp_all add: file_events_cases opened_def)

lemma opened_concat:
  "opened (concat (map (file_events p mw mh dry) cs)) = map fname cs"
  by (induction cs) (simp_all add: opened_append opened_file_events opened_simps)

lemma opened_frame:
  "opened (banner p mw mh dry) = []"
  "opened (listing entries) = []"
  "opened (summary dry n d k e) = []"
  by (simp_all add: banner_def listing_def summary_def opened_def)

lemma opened_run:
  "opened (events (delete_small_images p mw mh dry (Directory entries))) =
     map fname (image_files entries)"
proof (cases "image_files entries = []")
  case True
  then show ?thesis
    by (simp add: run_no_images opened_append opened_frame opened_simps)
next
  case False
  then show ?thesis
    by (simp add: run_directory opened_append opened_frame opened_concat opened_simps)
qed

lemma file_events_in_run:
  assumes "f \<in> set (image_files entries)" and "ev \<in> set (file_events p mw mh dry f)"
  shows "ev \<in> set (events (delete_small_images p mw mh dry (Directory entries)))"
proof -
  from assms(1) have "image_files entries \<noteq> []" by auto
  from run_directory [OF this] assms show ?thesis by auto
qed

lemma failing_survives:
  assumes "f \<in> set (image_files entries)" and "failing mw mh dry f"
  shows "\<exists>fs. after (delete_small_images p mw mh dry (Directory entries)) = Directory fs
           \<and> f \<in> set fs"
proof -
  from assms(2) have "\<not> removed mw mh dry f"
    using classes_exclusive [of f mw mh] by (auto simp: failing_def removed_def)
  moreover from assms(1) have "f \<in> set entries" by (simp add: image_files_iff)
  ultimately show ?thesis by (simp add: after_run)
qed

text \<open>
  C5. An error on one file never stops the run. On a folder with candidates the run
  always reaches the summary, and it opens every candidate, once each and in order. A
  candidate the reader fails on, or (when not a dry run) whose unlink fails, adds one to
  the error count, gets its notice, stays in the folder, and is not touched further; the
  final error count is the number of such candidates.
\<close>

theorem per_file_errors_never_fatal:
  assumes "f \<in> set (image_files entries)"
    and "r = delete_small_images p mw mh dry (Directory entries)"
  shows "(\<exists>d k. outcome r =
            Completed d k (int (length [c \<leftarrow> image_files entries. failing mw mh dry c])))
       \<and> Print SummaryHeader \<in> set (events r)
       \<and> opened (events r) = map fname (image_files entries)
       \<and> (\<forall>msg. img_size f = Inl msg \<longrightarrow>
             failing mw mh dry f
             \<and> Print (CouldNotRead p (fname f) msg) \<in> set (events r)
             \<and> Unlink (fname f) \<notin> set (file_events p mw mh dry f))
       \<and> (\<forall>w h msg. \<not> dry \<and> img_size f = Inr (w, h) \<and> (w < mw \<or> h < mh)
               \<and> unlink_exn f = Some msg \<longrightarrow>
             failing mw mh dry f
             \<and> Print (ErrorDeleting (fname f) msg) \<in> set (events r))
       \<and> (failing mw mh dry f \<longrightarrow>
             (\<forall>s. error_count (process_file p mw mh dry f s) = error_count s + 1
                \<and> files (process_file p mw mh dry f s) = files s)
             \<and> (\<exists>fs. after r = Directory fs \<and> f \<in> set fs))"
proof -
  from assms(1) have ne: "image_files entries \<noteq> []" by auto
  have reached: "\<exists>d k. outcome r =
      Completed d k (int (length [c \<leftarrow> image_files entries. failing mw mh dry c]))"
    by (simp add: assms(2) run_directory [OF ne])
  have hdr: "Print SummaryHeader \<in> set (events r)"
    by (simp add: assms(2) run_directory [OF ne] summary_def)
  have every: "opened (events r) = map fname (image_files entries)"
    by (simp only: assms(2) opened_run)
  have rd: "failing mw mh dry f
      \<and> Print (CouldNotRead p (fname f) msg) \<in> set (events r)
      \<and> Unlink (fname f) \<notin> set (file_events p mw mh dry f)"
    if "img_size f = Inl msg" for msg
  proof -
    from that have ev: "file_events p mw mh dry f =
        [OpenImage (fname f), Print (CouldNotRead p (fname f) msg)]"
      by (rule file_events_unreadable)
    then have "Print (CouldNotRead p (fname f) msg) \<in> set (file_events p mw mh dry f)"
      by simp
    from file_events_in_run [OF assms(1) this] have "Print (CouldNotRead p (fname f) msg) \<in> set (events r)"
      by (simp only: assms(2))
    with that ev show ?thesis by (simp add: failing_def unreadable_def)
  qed
  have dl: "failing mw mh dry f \<and> Print (ErrorDeleting (fname f) msg) \<in> set (events r)"
    if "\<not> dry \<and> img_size f = Inr (w, h) \<and> (w < mw \<or> h < mh) \<and> unlink_exn f = Some msg"
    for w h msg
  proof -
    from that have "file_events p mw mh dry f =
        [OpenImage (fname f), Unlink (fname f), Print (ErrorDeleting (fname f) msg)]"
      using file_events_delete_error [of f w h mw mh msg p] by simp
    then have "Print (ErrorDeleting (fname f) msg) \<in> set (file_events p mw mh dry f)"
      by simp
    from file_events_in_run [OF assms(1) this] have "Print (ErrorDeleting (fname f) msg) \<in> set (events r)"
      by (simp only: assms(2))
    with that show ?thesis by (simp add: failing_def undersized_def)
  qed
  have stay: "(\<forall>s. error_count (process_file p mw mh dry f s) = error_count s + 1
        \<and> files (process_file p mw mh dry f s) = files s)
      \<and> (\<exists>fs. after r = Directory fs \<and> f \<in> set fs)"
    if "failing mw mh dry f"
  proof -
    from that have "\<forall>s. error_count (process_file p mw mh dry f s) = error_count s + 1
        \<and> files (process_file p mw mh dry f s) = files s"
      by (auto simp: error_count_process_file files_process_file failing_def unreadable_def
          undersized_def split: sum.splits)
    with failing_survives [OF assms(1) that, of p] show ?thesis
      by (simp only: assms(2)) blast
  qed
  from reached hdr every rd dl stay show ?thesis by blast
qed

theorem per_file_errors_never_fatal_witness:
  "outcome (delete_small_images ''pics'' 400 400 False (Directory pics)) = Completed 1 2 2
   \<and> Print (CouldNotRead ''pics'' ''c.webp'' ''cannot identify image file'')
       \<in> set (events (delete_small_images ''pics'' 400 400 False (Directory pics)))
   \<and> Print (ErrorDeleting ''d.GIF'' ''Permission denied'')
       \<in> set (events (delete_small_images ''pics'' 400 400 False (Directory pics)))
   \<and> opened (events (delete_small_images ''pics'' 400 400 False (Directory pics))) =
       [''a.jpg'', ''b.png'', ''c.webp'', ''d.GIF'', ''e.bmp'']
   \<and> after (delete_small_images ''pics'' 400 400 False (Directory pics)) =
       Directory [a_jpg, notes_txt, c_webp, thumbs_png, d_gif, e_bmp]"
proof -
  have cands: "image_files pics = [a_jpg, b_png, c_webp, d_gif, e_bmp]"
    by code_simp
  have c: "c_webp \<in> set (image_files pics)" and d: "d_gif \<in> set (image_files pics)"
    by (simp_all add: cands)
  have names: "map fname (image_files pics) = [''a.jpg'', ''b.png'', ''c.webp'', ''d.GIF'', ''e.bmp'']"
    by (simp add: cands a_jpg_def b_png_def c_webp_def d_gif_def e_bmp_def)
  have 1: "outcome (delete_small_images ''pics'' 400 400 False (Directory pics)) = Completed 1 2 2"
    by code_simp
  have 5: "after (delete_small_images ''pics'' 400 400 False (Directory pics)) =
       Directory [a_jpg, notes_txt, c_webp, thumbs_png, d_gif, e_bmp]"
    by code_simp
  from per_file_errors_never_fatal [OF c refl, of "''pics''" 400 400 False]
  have 2: "Print (CouldNotRead ''pics'' ''c.webp'' ''cannot identify image file'')
       \<in> set (events (delete_small_images ''pics'' 400 400 False (Directory pics)))"
    and 4: "opened (events (delete_small_images ''pics'' 400 400 False (Directory pics))) =
       [''a.jpg'', ''b.png'', ''c.webp'', ''d.GIF'', ''e.bmp'']"
    by (simp_all add: c_webp_def names)
  from per_file_errors_never_fatal [OF d refl, of "''pics''" 400 400 False]
  have 3: "Print (ErrorDeleting ''d.GIF'' ''Permission denied'')
       \<in> set (events (delete_small_images ''pics'' 400 400 False (Directory pics)))"
    by (simp add: d_gif_def)
  from 1 2 3 4 5 show ?thesis by simp
qed

section \<open>The size test\<close>

lemma kept_in_file_events:
  "Print (Kept n w h) \<in> set (file_events p mw mh dry g) \<longleftrightarrow>
     n = fname g \<and> img_size g = Inr (w, h) \<and> \<not> (w < mw \<or> h < mh)"
  by (rule process_file_split [where f = g and mw = mw and mh = mh and dry = dry])
     (auto simp: file_events_cases)

lemma would_delete_in_file_events:
  "Print (WouldDelete n w h) \<in> set (file_events p mw mh dry g) \<longleftrightarrow>
     dry \<and> n = fname g \<and> img_size g = Inr (w, h) \<and> (w < mw \<or> h < mh)"
  by (rule process_file_split [where f = g and mw = mw and mh = mh and dry = dry])
     (auto simp: file_events_cases)

lemma deleted_in_file_events:
  "Print (Deleted n w h) \<in> set (file_events p mw mh dry g) \<longleftrightarrow>
     \<not> dry \<and> n = fname g \<and> img_size g = Inr (w, h) \<and> (w < mw \<or> h < mh)
     \<and> unlink_exn g = None"
  by (rule process_file_split [where f = g and mw = mw and mh = mh and dry = dry])
     (auto simp: file_events_cases)

lemma unlink_in_file_events:
  "Unlink n \<in> set (file_events p mw mh dry g) \<longleftrightarrow>
     \<not> dry \<and> n = fname g \<and> undersized mw mh g"
  by (rule process_file_split [where f = g and mw = mw and mh = mh and dry = dry])
     (auto simp: file_events_cases undersized_def)

lemma event_of_candidate:
  assumes "ev \<in> set (events (delete_small_images p mw mh dry (Directory entries)))"
    and "subject ev \<noteq> None"
  shows "\<exists>g \<in> set (image_files entries). ev \<in> set (file_events p mw mh dry g)"
proof (cases "image_files entries = []")
  case True
  with assms(1) have "ev \<in> set (banner p mw mh dry) \<or> ev \<in> set (listing entries)
      \<or> ev = Print NoImageFiles"
    by (auto simp: run_no_images)
  then have "subject ev = None"
    using subject_frame(1,2) by (auto simp: subject_def)
  with assms(2) show ?thesis by simp
next
  case False
  let ?sum = "summary dry (int (length (image_files entries)))
            (int (length [f \<leftarrow> image_files entries. removed mw mh dry f]))
            (int (length [f \<leftarrow> image_files entries. large_enough mw mh f]))
            (int (length [f \<leftarrow> image_files entries. failing mw mh dry f]))"
  from assms(1) consider
      (frame) "ev \<in> set (banner p mw mh dry) \<or> ev \<in> set (listing entries) \<or> ev \<in> set ?sum"
    | (found) "ev = Print (Found (int (length (image_files entries)))) \<or> ev = Print Blank"
    | (entry) g where "g \<in> set (image_files entries)" "ev \<in> set (file_events p mw mh dry g)"
    by (auto simp: run_directory [OF False])
  then show ?thesis
  proof cases
    case frame
    then have "subject ev = None" using subject_frame by blast
    with assms(2) show ?thesis by simp
  next
    case found
    then have "subject ev = None" by (auto simp: subject_def)
    with assms(2) show ?thesis by simp
  next
    case entry
    then show ?thesis by blast
  qed
qed

lemma same_name_same_candidate:
  assumes "distinct (map fname entries)"
    and "f \<in> set (image_files entries)" and "g \<in> set (image_files entries)"
    and "fname g = fname f"
  shows "g = f"
proof -
  from assms(1) have "inj_on fname (set entries)" by (simp add: distinct_map)
  moreover from assms(2,3) have "f \<in> set entries" "g \<in> set entries"
    by (simp_all add: image_files_iff)
  ultimately show ?thesis using assms(4) by (auto dest: inj_onD)
qed

lemma kept_in_run:
  assumes "f \<in> set (image_files entries)" and "img_size f = Inr (w, h)"
  shows "Print (Kept (fname f) w h) \<in> set (events (delete_small_images p mw mh dry (Directory entries)))
     \<longleftrightarrow> \<not> (w < mw \<or> h < mh)"
proof
  assume "Print (Kept (fname f) w h) \<in> set (events (delete_small_images p mw mh dry (Directory entries)))"
  moreover have "subject (Print (Kept (fname f) w h)) \<noteq> None" by (simp add: subject_def)
  ultimately obtain g where "Print (Kept (fname f) w h) \<in> set (file_events p mw mh dry g)"
    using event_of_candidate by blast
  then show "\<not> (w < mw \<or> h < mh)" by (simp add: kept_in_file_events)
next
  assume "\<not> (w < mw \<or> h < mh)"
  with assms(2) have "Print (Kept (fname f) w h) \<in> set (file_events p mw mh dry f)"
    by (simp add: kept_in_file_events)
  with assms(1) show "Print (Kept (fname f) w h) \<in> set (events (delete_small_images p mw mh dry (Directory entries)))"
    by (rule file_events_in_run)
qed

lemma would_delete_in_run:
  assumes "f \<in> set (image_files entries)" and "img_size f = Inr (w, h)"
  shows "Print (WouldDelete (fname f) w h) \<in> set (events (delete_small_images p mw mh dry (Directory entries)))
     \<longleftrightarrow> dry \<and> (w < mw \<or> h < mh)"
proof
  assume "Print (WouldDelete (fname f) w h) \<in> set (events (delete_small_images p mw mh dry (Directory entries)))"
  moreover have "subject (Print (WouldDelete (fname f) w h)) \<noteq> None" by (simp add: subject_def)
  ultimately obtain g where "Print (WouldDelete (fname f) w h) \<in> set (file_events p mw mh dry g)"
    using event_of_candidate by blast
  then show "dry \<and> (w < mw \<or> h < mh)" by (simp add: would_delete_in_file_events)
next
  assume "dry \<and> (w < mw \<or> h < mh)"
  with assms(2) have "Print (WouldDelete (fname f) w h) \<in> set (file_events p mw mh dry f)"
    by (simp add: would_delete_in_file_events)
  with assms(1) show "Print (WouldDelete (fname f) w h) \<in> set (events (delete_small_images p mw mh dry (Directory entries)))"
    by (rule file_events_in_run)
qed

lemma unlink_in_run:
  assumes "f \<in> set (image_files entries)" and "img_size f = Inr (w, h)"
    and "distinct (map fname entries)"
  shows "Unlink (fname f) \<in> set (events (delete_small_images p mw mh dry (Directory entries)))
     \<longleftrightarrow> \<not> dry \<and> (w < mw \<or> h < mh)"
proof
  assume "Unlink (fname f) \<in> set (events (delete_small_images p mw mh dry (Directory entries)))"
  moreover have "subject (Unlink (fname f)) \<noteq> None" by (simp add: subject_def)
  ultimately obtain g where g: "g \<in> set (image_files entries)"
      "Unlink (fname f) \<in> set (file_events p mw mh dry g)"
    using event_of_candidate by blast
  from g(2) have *: "\<not> dry" "fname g = fname f" "undersized mw mh g"
    by (simp_all add: unlink_in_file_events)
  from same_name_same_candidate [OF assms(3,1) g(1) *(2)] *(1,3) assms(2)
  show "\<not> dry \<and> (w < mw \<or> h < mh)" by (simp add: undersized_def)
next
  assume "\<not> dry \<and> (w < mw \<or> h < mh)"
  with assms(2) have "Unlink (fname f) \<in> set (file_events p mw mh dry f)"
    by (simp add: unlink_in_file_events undersized_def)
  with assms(1) show "Unlink (fname f) \<in> set (events (delete_small_images p mw mh dry (Directory entries)))"
    by (rule file_events_in_run)
qed

lemma deleted_in_run:
  assumes "f \<in> set (image_files entries)" and "img_size f = Inr (w, h)"
    and "distinct (map fname entries)"
  shows "Print (Deleted (fname f) w h) \<in> set (events (delete_small_images p mw mh dry (Directory entries)))
     \<longleftrightarrow> \<not> dry \<and> (w < mw \<or> h < mh) \<and> unlink_exn f = None"
proof
  assume "Print (Deleted (fname f) w h) \<in> set (events (delete_small_images p mw mh dry (Directory entries)))"
  moreover have "subject (Print (Deleted (fname f) w h)) \<noteq> None" by (simp add: subject_def)
  ultimately obtain g where g: "g \<in> set (image_files entries)"
      "Print (Deleted (fname f) w h) \<in> set (file_events p mw mh dry g)"
    using event_of_candidate by blast
  from g(2) have *: "\<not> dry" "fname g = fname f" "w < mw \<or> h < mh" "unlink_exn g = None"
    by (simp_all add: deleted_in_file_events)
  from same_name_same_candidate [OF assms(3,1) g(1) *(2)] *(1,3,4)
  show "\<not> dry \<and> (w < mw \<or> h < mh) \<and> unlink_exn f = None" by simp
next
  assume "\<not> dry \<and> (w < mw \<or> h < mh) \<and> unlink_exn f = None"
  with assms(2) have "Print (Deleted (fname f) w h) \<in> set (file_events p mw mh dry f)"
    by (simp add: deleted_in_file_events)
  with assms(1) show "Print (Deleted (fname f) w h) \<in> set (events (delete_small_images p mw mh dry (Directory entries)))"
    by (rule file_events_in_run)
qed

lemma candidate_after_run:
  assumes "f \<in> set (image_files entries)" and "img_size f = Inr (w, h)"
  shows "\<exists>fs. after (delete_small_images p mw mh dry (Directory entries)) = Directory fs
     \<and> (f \<in> set fs \<longleftrightarrow> \<not> (\<not> dry \<and> (w < mw \<or> h < mh) \<and> unlink_exn f = None))"
proof -
  from assms(1) have "f \<in> set entries" by (simp add: image_files_iff)
  with assms show ?thesis
    by (auto simp: after_run removed_def undersized_def)
qed

text \<open>
  C2. Take a run on a folder and a candidate of it whose size (w, h) is read. The run
  treats it as undersized exactly when w is below the minimum width or h below the
  minimum height: a dry run prints its would-delete notice then and only then; a run that
  deletes unlinks it then and only then, and it is gone from the folder afterwards
  exactly when that unlink succeeded; and the run prints its kept notice, and counts it
  as kept, exactly when neither is below. The counters of the run are the numbers of
  candidates so classified. A candidate of exactly the minimum width and height is kept
  and stays in the folder. The same holds of each pass of the loop body.
\<close>

theorem undersized_iff_strictly_below:
  assumes "f \<in> set (image_files entries)" and "img_size f = Inr (w, h)"
    and "r = delete_small_images p mw mh dry (Directory entries)"
  shows "(\<exists>e. outcome r =
            Completed (int (length [c \<leftarrow> image_files entries. removed mw mh dry c]))
              (int (length [c \<leftarrow> image_files entries. large_enough mw mh c])) e)
       \<and> (undersized mw mh f \<longleftrightarrow> w < mw \<or> h < mh)
       \<and> (large_enough mw mh f \<longleftrightarrow> \<not> (w < mw \<or> h < mh))
       \<and> (removed mw mh dry f \<longleftrightarrow> \<not> dry \<and> (w < mw \<or> h < mh) \<and> unlink_exn f = None)
       \<and> (Print (Kept (fname f) w h) \<in> set (events r) \<longleftrightarrow> \<not> (w < mw \<or> h < mh))
       \<and> (Print (WouldDelete (fname f) w h) \<in> set (events r) \<longleftrightarrow> dry \<and> (w < mw \<or> h < mh))
       \<and> (distinct (map fname entries) \<longrightarrow>
             (Unlink (fname f) \<in> set (events r) \<longleftrightarrow> \<not> dry \<and> (w < mw \<or> h < mh))
             \<and> (Print (Deleted (fname f) w h) \<in> set (events r) \<longleftrightarrow>
                  \<not> dry \<and> (w < mw \<or> h < mh) \<and> unlink_exn f = None))
       \<and> (\<exists>fs. after r = Directory fs
             \<and> (f \<in> set fs \<longleftrightarrow> \<not> (\<not> dry \<and> (w < mw \<or> h < mh) \<and> unlink_exn f = None)))
       \<and> (w = mw \<and> h = mh \<longrightarrow>
             Print (Kept (fname f) w h) \<in> set (events r)
             \<and> Print (WouldDelete (fname f) w h) \<notin> set (events r)
             \<and> (\<exists>fs. after r = Directory fs \<and> f \<in> set fs)
             \<and> process_file p mw mh dry f s =
                 s\<lparr>kept_count := kept_count s + 1,
                   log := log s @ [OpenImage (fname f), Print (Kept (fname f) w h)]\<rparr>)
       \<and> (Print (WouldDelete (fname f) w h) \<in> set (file_events p mw mh True f)
            \<longleftrightarrow> w < mw \<or> h < mh)
       \<and> (Unlink (fname f) \<in> set (file_events p mw mh False f) \<longleftrightarrow> w < mw \<or> h < mh)
       \<and> (deleted_count (process_file p mw mh dry f s) = deleted_count s + 1
            \<longleftrightarrow> (w < mw \<or> h < mh) \<and> \<not> dry \<and> unlink_exn f = None)
       \<and> (kept_count (process_file p mw mh dry f s) = kept_count s + 1
            \<longleftrightarrow> \<not> (w < mw \<or> h < mh))
       \<and> (Print (Kept (fname f) w h) \<in> set (file_events p mw mh dry f)
            \<longleftrightarrow> \<not> (w < mw \<or> h < mh))"
proof -
  from assms(1) have ne: "image_files entries \<noteq> []" by auto
  have sized: "undersized mw mh f \<longleftrightarrow> w < mw \<or> h < mh"
    "large_enough mw mh f \<longleftrightarrow> \<not> (w < mw \<or> h < mh)"
    "removed mw mh dry f \<longleftrightarrow> \<not> dry \<and> (w < mw \<or> h < mh) \<and> unlink_exn f = None"
    by (simp_all add: undersized_def large_enough_def removed_def assms(2))
  have out: "\<exists>e. outcome r =
      Completed (int (length [c \<leftarrow> image_files entries. removed mw mh dry c]))
        (int (length [c \<leftarrow> image_files entries. large_enough mw mh c])) e"
    by (simp add: assms(3) run_directory [OF ne])
  have kept_r: "Print (Kept (fname f) w h) \<in> set (events r) \<longleftrightarrow> \<not> (w < mw \<or> h < mh)"
    by (simp only: assms(3) kept_in_run [OF assms(1,2)])
  have would_r: "Print (WouldDelete (fname f) w h) \<in> set (events r) \<longleftrightarrow> dry \<and> (w < mw \<or> h < mh)"
    by (simp only: assms(3) would_delete_in_run [OF assms(1,2)])
  have unl_r: "Unlink (fname f) \<in> set (events r) \<longleftrightarrow> \<not> dry \<and> (w < mw \<or> h < mh)"
    and del_r: "Print (Deleted (fname f) w h) \<in> set (events r) \<longleftrightarrow>
      \<not> dry \<and> (w < mw \<or> h < mh) \<and> unlink_exn f = None"
    if "distinct (map fname entries)"
    by (simp_all only: assms(3) unlink_in_run [OF assms(1,2) that]
        deleted_in_run [OF assms(1,2) that])
  have aft: "\<exists>fs. after r = Directory fs
      \<and> (f \<in> set fs \<longleftrightarrow> \<not> (\<not> dry \<and> (w < mw \<or> h < mh) \<and> unlink_exn f = None))"
    by (simp only: assms(3) candidate_after_run [OF assms(1,2)])
  have step: "process_file p mw mh dry f s =
      s\<lparr>kept_count := kept_count s + 1,
        log := log s @ [OpenImage (fname f), Print (Kept (fname f) w h)]\<rparr>"
    if "w = mw \<and> h = mh"
    using assms(2) that by (simp add: process_file_kept)
  have edge: "Print (Kept (fname f) w h) \<in> set (events r)
      \<and> Print (WouldDelete (fname f) w h) \<notin> set (events r)
      \<and> (\<exists>fs. after r = Directory fs \<and> f \<in> set fs)
      \<and> process_file p mw mh dry f s =
          s\<lparr>kept_count := kept_count s + 1,
            log := log s @ [OpenImage (fname f), Print (Kept (fname f) w h)]\<rparr>"
    if "w = mw \<and> h = mh"
  proof -
    from that have "\<not> (w < mw \<or> h < mh)" by simp
    with kept_r would_r aft step [OF that] show ?thesis by blast
  qed
  have would: "Print (WouldDelete (fname f) w h) \<in> set (file_events p mw mh True f)
      \<longleftrightarrow> w < mw \<or> h < mh"
    by (simp add: would_delete_in_file_events assms(2))
  have unl: "Unlink (fname f) \<in> set (file_events p mw mh False f) \<longleftrightarrow> w < mw \<or> h < mh"
    by (simp add: unlink_in_file_events sized)
  have del: "deleted_count (process_file p mw mh dry f s) = deleted_count s + 1
      \<longleftrightarrow> (w < mw \<or> h < mh) \<and> \<not> dry \<and> unlink_exn f = None"
    by (simp add: deleted_count_process_file sized)
  have kept: "kept_count (process_file p mw mh dry f s) = kept_count s + 1
      \<longleftrightarrow> \<not> (w < mw \<or> h < mh)"
    by (simp add: kept_count_process_file sized)
  have keptn: "Print (Kept (fname f) w h) \<in> set (file_events p mw mh dry f)
      \<longleftrightarrow> \<not> (w < mw \<or> h < mh)"
    by (simp add: kept_in_file_events assms(2))
  from out sized kept_r would_r unl_r del_r aft edge would unl del kept keptn
  show ?thesis by blast
qed

theorem undersized_iff_strictly_below_witness:
  "Unlink ''b.png'' \<in> set (events (delete_small_images ''pics'' 400 400 False (Directory pics)))
   \<and> Print (Deleted ''b.png'' 200 200)
       \<in> set (events (delete_small_images ''pics'' 400 400 False (Directory pics)))
   \<and> Print (WouldDelete ''b.png'' 200 200)
       \<in> set (events (delete_small_images ''pics'' 400 400 True (Directory pics)))
   \<and> Unlink ''e.bmp'' \<notin> set (events (delete_small_images ''pics'' 400 400 False (Directory pics)))
   \<and> Print (Kept ''e.bmp'' 400 400)
       \<in> set (events (delete_small_images ''pics'' 400 400 False (Directory pics)))
   \<and> after (delete_small_images ''pics'' 400 400 False (Directory pics)) =
       Directory [a_jpg, notes_txt, c_webp, thumbs_png, d_gif, e_bmp]
   \<and> outcome (delete_small_images ''pics'' 400 400 False (Directory pics)) = Completed 1 2 2"
proof -
  have cands: "image_files pics = [a_jpg, b_png, c_webp, d_gif, e_bmp]"
    by code_simp
  have b: "b_png \<in> set (image_files pics)" and e: "e_bmp \<in> set (image_files pics)"
    by (simp_all add: cands)
  have sb: "img_size b_png = Inr (200, 200)" and se: "img_size e_bmp = Inr (400, 400)"
    and nb: "fname b_png = ''b.png''" and ne: "fname e_bmp = ''e.bmp''"
    and ub: "unlink_exn b_png = None"
    by (simp_all add: b_png_def e_bmp_def)
  have names: "distinct (map fname pics)"
    by code_simp
  have aft: "after (delete_small_images ''pics'' 400 400 False (Directory pics)) =
      Directory [a_jpg, notes_txt, c_webp, thumbs_png, d_gif, e_bmp]"
    by code_simp
  have out: "outcome (delete_small_images ''pics'' 400 400 False (Directory pics)) = Completed 1 2 2"
    by code_simp
  from undersized_iff_strictly_below [OF b sb refl, of "''pics''" 400 400 False] names ub
  have 1: "Unlink ''b.png'' \<in> set (events (delete_small_images ''pics'' 400 400 False (Directory pics)))"
    "Print (Deleted ''b.png'' 200 200)
       \<in> set (events (delete_small_images ''pics'' 400 400 False (Directory pics)))"
    by (simp_all add: nb)
  from undersized_iff_strictly_below [OF b sb refl, of "''pics''" 400 400 True]
  have 2: "Print (WouldDelete ''b.png'' 200 200)
       \<in> set (events (delete_small_images ''pics'' 400 400 True (Directory pics)))"
    by (simp add: nb)
  from undersized_iff_strictly_below [OF e se refl, of "''pics''" 400 400 False] names
  have 3: "Unlink ''e.bmp'' \<notin> set (events (delete_small_images ''pics'' 400 400 False (Directory pics)))"
    "Print (Kept ''e.bmp'' 400 400)
       \<in> set (events (delete_small_images ''pics'' 400 400 False (Directory pics)))"
    by (simp_all add: ne)
  from 1 2 3 aft out show ?thesis by simp
qed

section \<open>Dry runs\<close>

lemma unlink_file_events:
  "filter is_unlink (file_events p mw mh dry f) =
     (if \<not> dry \<and> undersized mw mh f then [Unlink (fname f)] else [])"
  by (rule process_file_split [where f = f and mw = mw and mh = mh and dry = dry])
     (simp_all add: file_events_cases undersized_def is_unlink_def)

lemma unlink_concat:
  "filter is_unlink (concat (map (file_events p mw mh dry) cs)) =
     map (\<lambda>f. Unlink (fname f)) [f \<leftarrow> cs. \<not> dry \<and> undersized mw mh f]"
  by (induction cs) (simp_all add: unlink_file_events)

lemma unlink_frame:
  "filter is_unlink (banner p mw mh dry) = []"
  "filter is_unlink (listing entries) = []"
  "filter is_unlink (summary dry n d k e) = []"
  by (simp_all add: banner_def listing_def summary_def is_unlink_def)

lemma unlinks_run:
  "filter is_unlink (events (delete_small_images p mw mh dry (Directory entries))) =
     map (\<lambda>f. Unlink (fname f)) [f \<leftarrow> image_files entries. \<not> dry \<and> undersized mw mh f]"
proof (cases "image_files entries = []")
  case True
  then show ?thesis
    by (simp add: run_no_images unlink_frame is_unlink_def)
next
  case False
  then show ?thesis
    by (simp add: run_directory unlink_frame unlink_concat is_unlink_def)
qed

lemma dry_run_after: "after (delete_small_images p mw mh True t) = t"
proof (cases t)
  case (Directory entries)
  then show ?thesis by (simp add: after_run removed_def)
qed (simp_all add: delete_small_images_def)

lemma dry_run_no_unlink:
  "filter is_unlink (events (delete_small_images p mw mh True t)) = []"
proof (cases t)
  case (Directory entries)
  then show ?thesis by (simp add: unlinks_run)
qed (simp_all add: delete_small_images_def banner_def is_unlink_def)

text \<open>
  C7. A dry run changes nothing in the folder and attempts no unlink, whatever the
  target is; so a second dry run on what the first one left gives the same outcome, with
  the same counters, and the same trace.
\<close>

theorem dry_run_twice_same_counters:
  "after (delete_small_images p mw mh True t) = t
   \<and> filter is_unlink (events (delete_small_images p mw mh True t)) = []
   \<and> delete_small_images p mw mh True (after (delete_small_images p mw mh True t)) =
       delete_small_images p mw mh True t"
  by (simp add: dry_run_after dry_run_no_unlink)

theorem dry_run_twice_same_counters_witness:
  "after (delete_small_images ''pics'' 400 400 True (Directory pics)) = Directory pics
   \<and> outcome (delete_small_images ''pics'' 400 400 True
        (after (delete_small_images ''pics'' 400 400 True (Directory pics)))) = Completed 0 2 1
   \<and> outcome (delete_small_images ''pics'' 400 400 True (Directory pics)) = Completed 0 2 1"
proof -
  have "outcome (delete_small_images ''pics'' 400 400 True (Directory pics)) = Completed 0 2 1"
    by code_simp
  with dry_run_twice_same_counters [of "''pics''" 400 400 "Directory pics"]
  show ?thesis by simp
qed

lemma would_be_deleted_frame:
  "Print (WouldBeDeleted w) \<notin> set (banner p mw mh dry)"
  "Print (WouldBeDeleted w) \<notin> set (listing entries)"
  "Print (WouldBeDeleted w) \<in> set (summary dry n d k e) \<longleftrightarrow> dry \<and> w = n - k - e"
  by (auto simp: banner_def listing_def summary_def)

lemma would_be_deleted_run:
  assumes "image_files entries \<noteq> []"
  shows "Print (WouldBeDeleted w) \<in> set (events (delete_small_images p mw mh dry (Directory entries)))
     \<longleftrightarrow> dry \<and> w = int (length (image_files entries))
          - int (length [f \<leftarrow> image_files entries. large_enough mw mh f])
          - int (length [f \<leftarrow> image_files entries. failing mw mh dry f])"
proof -
  have "Print (WouldBeDeleted w) \<notin> set (file_events p mw mh dry f)" for f
    using subject_file_events [of "Print (WouldBeDeleted w)" p mw mh dry f]
    by (auto simp: subject_def)
  then show ?thesis
    by (simp add: run_directory [OF assms] would_be_deleted_frame)
qed

text \<open>
  C9. In a dry run no counter is kept for the files that would be deleted: the loop
  leaves \<open>deleted_count\<close> alone, and the summary shows the number of candidates minus
  those kept and those in error. That number is the number of candidates whose size was
  read and is below a threshold.
\<close>

theorem would_delete_is_derived_and_exact:
  assumes "image_files entries \<noteq> []"
    and "r = delete_small_images p mw mh True (Directory entries)"
    and "n = int (length (image_files entries))"
  shows "\<exists>k e. outcome r = Completed 0 k e
           \<and> Print (WouldBeDeleted (n - k - e)) \<in> set (events r)
           \<and> (\<forall>w. Print (WouldBeDeleted w) \<in> set (events r) \<longrightarrow> w = n - k - e)
           \<and> n - k - e = would_delete_spec mw mh (image_files entries)
           \<and> (\<forall>f s. deleted_count (process_file p mw mh True f s) = deleted_count s)"
proof -
  let ?cs = "image_files entries"
  let ?k = "int (length [f \<leftarrow> ?cs. large_enough mw mh f])"
  let ?e = "int (length [f \<leftarrow> ?cs. failing mw mh True f])"
  have out: "outcome r = Completed 0 ?k ?e"
    by (simp add: assms(2) run_directory [OF assms(1)] removed_def)
  have pr: "Print (WouldBeDeleted w) \<in> set (events r) \<longleftrightarrow> w = n - ?k - ?e" for w
    by (simp add: assms(2,3) would_be_deleted_run [OF assms(1)])
  have "int (length [f \<leftarrow> ?cs. removed mw mh True f]) + ?k + ?e =
      n - int (length [f \<leftarrow> ?cs. undersized mw mh f])"
    by (simp only: assms(3) counts_partition if_True)
  then have eq: "n - ?k - ?e = would_delete_spec mw mh ?cs"
    by (simp add: removed_def would_delete_spec_def)
  have "deleted_count (process_file p mw mh True f s) = deleted_count s" for f s
    by (simp add: deleted_count_process_file)
  with out pr eq show ?thesis by blast
qed

theorem would_delete_is_derived_and_exact_witness:
  "Print (WouldBeDeleted 2) \<in> set (events (delete_small_images ''pics'' 400 400 True (Directory pics)))
   \<and> would_delete_spec 400 400 (image_files pics) = 2
   \<and> outcome (delete_small_images ''pics'' 400 400 True (Directory pics)) = Completed 0 2 1"
proof -
  have cands: "image_files pics = [a_jpg, b_png, c_webp, d_gif, e_bmp]"
    by code_simp
  then have ne: "image_files pics \<noteq> []" by simp
  have out: "outcome (delete_small_images ''pics'' 400 400 True (Directory pics)) = Completed 0 2 1"
    by code_simp
  from would_delete_is_derived_and_exact [OF ne refl refl, of "''pics''" 400 400] out cands
  show ?thesis by auto
qed

section \<open>The confirmation\<close>

lemma main_dry_run:
  "arg_dry_run a \<Longrightarrow>
   main a stdin t = delete_small_images (arg_folder a) (arg_width a) (arg_height a) True t"
  by (simp add: main_def)

lemma main_eof:
  "\<not> arg_dry_run a \<Longrightarrow>
   main a None t = \<lparr>outcome = Raised ''EOFError'', after = t, events = asked a\<rparr>"
  by (simp add: main_def)

lemma main_cancelled:
  "\<not> arg_dry_run a \<Longrightarrow> strip (lower line) \<noteq> ''yes'' \<Longrightarrow> strip (lower line) \<noteq> ''y'' \<Longrightarrow>
   main a (Some line) t =
     \<lparr>outcome = Cancelled, after = t, events = asked a @ [Print OperationCancelled]\<rparr>"
  by (simp add: main_def)

lemma main_confirmed:
  "\<not> arg_dry_run a \<Longrightarrow> strip (lower line) = ''yes'' \<or> strip (lower line) = ''y'' \<Longrightarrow>
   main a (Some line) t =
     (delete_small_images (arg_folder a) (arg_width a) (arg_height a) False t)
       \<lparr>events := asked a @
          events (delete_small_images (arg_folder a) (arg_width a) (arg_height a) False t)\<rparr>"
  by (auto simp: main_def Let_def)

lemma exists_first:
  "\<exists>evs. events (delete_small_images p mw mh dry t) = Exists # evs"
  by (cases t) (auto simp: delete_small_images_def banner_def Let_def log_scan)

lemma outcome_not_cancelled:
  "outcome (delete_small_images p mw mh dry t) \<noteq> Cancelled"
  by (cases t) (auto simp: delete_small_images_def Let_def)

text \<open>
  C6, as the code has it. Without \<^verbatim>\<open>--dry-run\<close> the program prints its warning and
  prompts before anything else. The scan runs exactly when the answer, in lower case and
  with the whitespace at both ends removed, is \<open>yes\<close> or \<open>y\<close>; on any other answer the
  run is cancelled: the target is as it was, nothing of the file system is accessed, and
  there are no counters.
\<close>

theorem confirmation_gate:
  assumes "\<not> arg_dry_run a" and "r = main a (Some line) t"
    and "run = delete_small_images (arg_folder a) (arg_width a) (arg_height a) False t"
  shows "(\<exists>evs. events r = asked a @ evs)
       \<and> (Exists \<in> set (events r) \<longleftrightarrow> strip (lower line) \<in> {''yes'', ''y''})
       \<and> (outcome r = Cancelled \<longleftrightarrow> strip (lower line) \<notin> {''yes'', ''y''})
       \<and> (strip (lower line) \<in> {''yes'', ''y''} \<longrightarrow>
            outcome r = outcome run \<and> after r = after run
            \<and> events r = asked a @ events run)
       \<and> (strip (lower line) \<notin> {''yes'', ''y''} \<longrightarrow>
            outcome r = Cancelled \<and> after r = t
            \<and> events r = asked a @ [Print OperationCancelled])"
proof (cases "strip (lower line) = ''yes'' \<or> strip (lower line) = ''y''")
  case True
  from main_confirmed [OF assms(1) True, of t]
  have r: "outcome r = outcome run" "after r = after run" "events r = asked a @ events run"
    by (simp_all add: assms(2,3))
  from exists_first [of "arg_folder a" "arg_width a" "arg_height a" False t]
  have "Exists \<in> set (events run)" by (auto simp: assms(3))
  moreover have "outcome run \<noteq> Cancelled"
    by (simp only: assms(3) outcome_not_cancelled not_False_eq_True)
  ultimately show ?thesis using r True by auto
next
  case False
  then have no: "strip (lower line) \<noteq> ''yes''" "strip (lower line) \<noteq> ''y''" by simp_all
  from main_cancelled [OF assms(1) no, of t]
  have r: "outcome r = Cancelled" "after r = t" "events r = asked a @ [Print OperationCancelled]"
    by (simp_all add: assms(2))
  have "Exists \<notin> set (events r)" by (simp add: r asked_def)
  with r False show ?thesis by simp
qed

theorem confirmation_gate_witness:
  "outcome (main delete_args (Some ''Y'') (Directory pics)) = Completed 1 2 2
   \<and> outcome (main delete_args (Some '''') (Directory pics)) = Cancelled
   \<and> after (main delete_args (Some ''no'') (Directory pics)) = Directory pics
   \<and> events (main delete_args (Some ''no'') (Directory pics)) =
       asked delete_args @ [Print OperationCancelled]"
proof -
  have nd: "\<not> arg_dry_run delete_args" by (simp add: delete_args_def)
  have y: "strip (lower ''Y'') \<in> {''yes'', ''y''}" by code_simp
  have e: "strip (lower '''') \<notin> {''yes'', ''y''}" by code_simp
  have n: "strip (lower ''no'') \<notin> {''yes'', ''y''}" by code_simp
  have out: "outcome (delete_small_images (arg_folder delete_args) (arg_width delete_args)
      (arg_height delete_args) False (Directory pics)) = Completed 1 2 2"
    by code_simp
  from confirmation_gate [OF nd refl refl, of "''Y''" "Directory pics"] y out
  have 1: "outcome (main delete_args (Some ''Y'') (Directory pics)) = Completed 1 2 2"
    by auto
  from confirmation_gate [OF nd refl refl, of "''''" "Directory pics"] e
  have 2: "outcome (main delete_args (Some '''') (Directory pics)) = Cancelled"
    by blast
  from confirmation_gate [OF nd refl refl, of "''no''" "Directory pics"] n
  have 3: "after (main delete_args (Some ''no'') (Directory pics)) = Directory pics"
    "events (main delete_args (Some ''no'') (Directory pics)) =
       asked delete_args @ [Print OperationCancelled]"
    by blast+
  from 1 2 3 show ?thesis by simp
qed

text \<open>
  C6, as the claim states it, fails: the answer \<open>yes\<close> with a space before it is neither
  \<open>yes\<close> nor \<open>y\<close> whatever the case of its letters, and the run is not cancelled: the
  scan runs and deletes \<^verbatim>\<open>b.png\<close>.
\<close>

theorem confirmation_exact_answer_counterexample:
  "lower '' yes'' \<noteq> ''yes'' \<and> lower '' yes'' \<noteq> ''y''
   \<and> outcome (main delete_args (Some '' yes'') (Directory [b_png])) = Completed 1 0 0
   \<and> after (main delete_args (Some '' yes'') (Directory [b_png])) = Directory []"
proof -
  have 1: "lower '' yes'' \<noteq> ''yes''" by code_simp
  have 2: "lower '' yes'' \<noteq> ''y''" by code_simp
  have 3: "outcome (main delete_args (Some '' yes'') (Directory [b_png])) = Completed 1 0 0"
    by code_simp
  have 4: "after (main delete_args (Some '' yes'') (Directory [b_png])) = Directory []"
    by code_simp
  from 1 2 3 4 show ?thesis by simp
qed

section \<open>Thresholds that are not positive\<close>

lemma would_deletes_run:
  "int (length (filter is_would_delete
      (events (delete_small_images p mw mh dry (Directory entries))))) =
   (if dry then int (length [f \<leftarrow> image_files entries. undersized mw mh f]) else 0)"
proof (cases "image_files entries = []")
  case True
  then show ?thesis
    by (simp add: run_no_images would_delete_frame is_would_delete_def)
next
  case False
  then show ?thesis by (rule would_delete_events)
qed

lemma no_undersized_run:
  assumes "\<forall>f \<in> set (image_files entries). \<not> undersized mw mh f"
  shows "after (delete_small_images p mw mh dry (Directory entries)) = Directory entries"
    and "filter is_unlink (events (delete_small_images p mw mh dry (Directory entries))) = []"
    and "filter is_would_delete (events (delete_small_images p mw mh dry (Directory entries))) = []"
    and "outcome (delete_small_images p mw mh dry (Directory entries)) = Completed d k e \<Longrightarrow>
           d = 0 \<and> k = int (length [f \<leftarrow> image_files entries. \<not> unreadable f])
           \<and> e = int (length [f \<leftarrow> image_files entries. unreadable f])"
proof -
  have none: "[f \<leftarrow> image_files entries. undersized mw mh f] = []"
    using assms by (simp add: filter_empty_conv)
  have "[e \<leftarrow> entries. \<not> (e \<in> set (image_files entries) \<and> removed mw mh dry e)] = entries"
    using assms by (auto simp: removed_def filter_id_conv)
  then show "after (delete_small_images p mw mh dry (Directory entries)) = Directory entries"
    by (simp add: after_run)
  have "[f \<leftarrow> image_files entries. \<not> dry \<and> undersized mw mh f] = []"
    using assms by (simp add: filter_empty_conv)
  then show "filter is_unlink (events (delete_small_images p mw mh dry (Directory entries))) = []"
    by (simp add: unlinks_run)
  have "int (length (filter is_would_delete
      (events (delete_small_images p mw mh dry (Directory entries))))) = 0"
    by (simp only: would_deletes_run none) simp
  then show "filter is_would_delete (events (delete_small_images p mw mh dry (Directory entries))) = []"
    by simp
  have rm: "[f \<leftarrow> image_files entries. removed mw mh dry f] = []"
    using assms by (simp add: filter_empty_conv removed_def)
  have lg: "[f \<leftarrow> image_files entries. large_enough mw mh f] =
      [f \<leftarrow> image_files entries. \<not> unreadable f]"
    using assms classes_exclusive [of _ mw mh] by (auto intro!: filter_cong)
  have fl: "[f \<leftarrow> image_files entries. failing mw mh dry f] =
      [f \<leftarrow> image_files entries. unreadable f]"
    using assms by (auto intro!: filter_cong simp: failing_def)
  show "d = 0 \<and> k = int (length [f \<leftarrow> image_files entries. \<not> unreadable f])
           \<and> e = int (length [f \<leftarrow> image_files entries. unreadable f])"
    if "outcome (delete_small_images p mw mh dry (Directory entries)) = Completed d k e"
  proof (cases "image_files entries = []")
    case True
    with that show ?thesis by (simp add: run_no_images)
  next
    case False
    from that show ?thesis
      by (simp add: run_directory [OF False] rm lg fl)
  qed
qed

lemma positive_not_undersized:
  assumes "mw \<le> 1" and "mh \<le> 1"
    and "\<forall>w h. img_size f = Inr (w, h) \<longrightarrow> 0 < w \<and> 0 < h"
  shows "\<not> undersized mw mh f"
  using assms by (auto simp: undersized_def split: sum.splits)

text \<open>
  C10. \<open>main\<close> hands \<^verbatim>\<open>--width\<close> and \<^verbatim>\<open>--height\<close> to the scan as they are, with no
  check that they are positive. When both are at most 1 (zero and negative values
  included) and every candidate whose size can be read has a positive width and height,
  no candidate is undersized: nothing is unlinked, nothing is reported as to be deleted,
  the folder is left as it is, and when the scan completes every readable candidate has
  been kept.
\<close>

theorem thresholds_at_most_one_delete_nothing:
  assumes "arg_width a \<le> 1" and "arg_height a \<le> 1"
    and "\<forall>f \<in> set (image_files entries). \<forall>w h. img_size f = Inr (w, h) \<longrightarrow> 0 < w \<and> 0 < h"
    and "r = main a stdin (Directory entries)"
  shows "after r = Directory entries
       \<and> filter is_unlink (events r) = []
       \<and> filter is_would_delete (events r) = []
       \<and> (\<forall>d k e. outcome r = Completed d k e \<longrightarrow>
             d = 0 \<and> k = int (length [f \<leftarrow> image_files entries. \<not> unreadable f])
             \<and> e = int (length [f \<leftarrow> image_files entries. unreadable f])
             \<and> Print (MinimumSize (arg_width a) (arg_height a)) \<in> set (events r))
       \<and> (arg_dry_run a \<longrightarrow>
             r = delete_small_images (arg_folder a) (arg_width a) (arg_height a) True
                   (Directory entries))"
proof -
  let ?run = "\<lambda>dry. delete_small_images (arg_folder a) (arg_width a) (arg_height a) dry
      (Directory entries)"
  have ok: "\<forall>f \<in> set (image_files entries). \<not> undersized (arg_width a) (arg_height a) f"
    using assms(1,2,3) positive_not_undersized by blast
  note run = no_undersized_run [OF ok, of "arg_folder a"]
  have size: "Print (MinimumSize (arg_width a) (arg_height a)) \<in> set (events (?run dry))"
    if "outcome (?run dry) = Completed d k e" for dry d k e
  proof (cases "image_files entries = []")
    case True
    with that show ?thesis by (simp add: run_no_images)
  next
    case False
    then show ?thesis by (simp add: run_directory banner_def)
  qed
  show ?thesis
  proof (cases "arg_dry_run a")
    case True
    then have "r = ?run True" by (simp add: assms(4) main_dry_run)
    with True run [of True] size [of True] show ?thesis by simp
  next
    case False
    show ?thesis
    proof (cases stdin)
      case None
      with False have "r = \<lparr>outcome = Raised ''EOFError'', after = Directory entries,
          events = asked a\<rparr>"
        by (simp add: assms(4) main_eof)
      with False show ?thesis by (simp add: asked_def is_unlink_def is_would_delete_def)
    next
      case (Some line)
      show ?thesis
      proof (cases "strip (lower line) = ''yes'' \<or> strip (lower line) = ''y''")
        case True
        from main_confirmed [OF False True, of "Directory entries"]
        have "outcome r = outcome (?run False)" "after r = after (?run False)"
          "events r = asked a @ events (?run False)"
          by (simp_all add: assms(4) Some)
        with False run [of False] size [of False] show ?thesis
          by (simp add: asked_def is_unlink_def is_would_delete_def)
      next
        case no: False
        then have "strip (lower line) \<noteq> ''yes''" "strip (lower line) \<noteq> ''y''" by simp_all
        from main_cancelled [OF False this, of "Directory entries"]
        have "r = \<lparr>outcome = Cancelled, after = Directory entries,
            events = asked a @ [Print OperationCancelled]\<rparr>"
          by (simp add: assms(4) Some)
        with False show ?thesis by (simp add: asked_def is_unlink_def is_would_delete_def)
      qed
    qed
  qed
qed

theorem thresholds_at_most_one_delete_nothing_witness:
  "arg_width small_args = - 5 \<and> arg_height small_args = 0
   \<and> after (main small_args (Some ''y'') (Directory sound_pics)) = Directory sound_pics
   \<and> outcome (main small_args (Some ''y'') (Directory sound_pics)) = Completed 0 3 1
   \<and> filter is_unlink (events (main small_args (Some ''y'') (Directory sound_pics))) = []"
proof -
  have w: "arg_width small_args \<le> 1" "arg_height small_args \<le> 1"
    "arg_width small_args = - 5" "arg_height small_args = 0"
    by (simp_all add: small_args_def)
  have cands: "image_files sound_pics = [a_jpg, b_png, c_webp, e_bmp]"
    by code_simp
  have pos: "\<forall>f \<in> set (image_files sound_pics). \<forall>w h. img_size f = Inr (w, h) \<longrightarrow> 0 < w \<and> 0 < h"
    by (simp add: cands a_jpg_def b_png_def c_webp_def e_bmp_def)
  have out: "outcome (main small_args (Some ''y'') (Directory sound_pics)) = Completed 0 3 1"
    by code_simp
  from thresholds_at_most_one_delete_nothing [OF w(1,2) pos refl, of "Some ''y''"] w(3,4) out
  show ?thesis by simp
qed

section \<open>Running twice\<close>

lemma image_files_filter: "image_files (filter Q entries) = filter Q (image_files entries)"
  by (induction entries) (simp_all add: image_files_def all_files_def)

lemma delete_error_file_events:
  "length (filter is_delete_error (file_events p mw mh dry f)) =
     (if \<not> dry \<and> undersized mw mh f \<and> unlink_exn f \<noteq> None then 1 else 0)"
  by (rule process_file_split [where f = f and mw = mw and mh = mh and dry = dry])
     (simp_all add: file_events_cases undersized_def is_delete_error_def)

lemma delete_error_concat:
  "length (filter is_delete_error (concat (map (file_events p mw mh dry) cs))) =
     length [f \<leftarrow> cs. \<not> dry \<and> undersized mw mh f \<and> unlink_exn f \<noteq> None]"
  by (induction cs) (simp_all add: delete_error_file_events)

lemma delete_error_frame:
  "filter is_delete_error (banner p mw mh dry) = []"
  "filter is_delete_error (listing entries) = []"
  "filter is_delete_error (summary dry n d k e) = []"
  by (simp_all add: banner_def listing_def summary_def is_delete_error_def)

lemma delete_errors_run:
  "length (filter is_delete_error (events (delete_small_images p mw mh dry (Directory entries)))) =
     length [f \<leftarrow> image_files entries. \<not> dry \<and> undersized mw mh f \<and> unlink_exn f \<noteq> None]"
proof (cases "image_files entries = []")
  case True
  then show ?thesis
    by (simp add: run_no_images delete_error_frame is_delete_error_def)
next
  case False
  then show ?thesis
    by (simp add: run_directory delete_error_frame delete_error_concat is_delete_error_def)
qed

lemma survivors_undersized:
  "filter (undersized mw mh)
     (image_files [e \<leftarrow> entries. \<not> (e \<in> set (image_files entries) \<and> removed mw mh False e)]) =
   [f \<leftarrow> image_files entries. undersized mw mh f \<and> unlink_exn f \<noteq> None]"
  by (auto simp: image_files_filter removed_def intro!: filter_cong)

text \<open>
  C8, as the code has it. After a run that deletes, the undersized candidates among the
  files still in the folder are exactly those whose unlink failed in that run. When no
  unlink failed, a second run with the same thresholds finds no undersized candidate: it
  attempts no unlink, its deleted count is 0, and it leaves the folder as the first run
  left it.
\<close>

theorem second_run_finds_only_failed_deletions:
  assumes "r1 = delete_small_images p mw mh False (Directory entries)"
    and "r2 = delete_small_images p mw mh False (after r1)"
  shows "\<exists>fs. after r1 = Directory fs
           \<and> filter (undersized mw mh) (image_files fs) =
               [f \<leftarrow> image_files entries. undersized mw mh f \<and> unlink_exn f \<noteq> None]
           \<and> (filter is_delete_error (events r1) = [] \<longrightarrow>
                 filter (undersized mw mh) (image_files fs) = []
                 \<and> filter is_unlink (events r2) = []
                 \<and> (\<forall>d k e. outcome r2 = Completed d k e \<longrightarrow> d = 0)
                 \<and> after r2 = after r1)"
proof -
  let ?fs = "[e \<leftarrow> entries. \<not> (e \<in> set (image_files entries) \<and> removed mw mh False e)]"
  let ?failed = "[f \<leftarrow> image_files entries. undersized mw mh f \<and> unlink_exn f \<noteq> None]"
  have fs: "after r1 = Directory ?fs"
    by (simp only: assms(1) after_run)
  have left: "filter (undersized mw mh) (image_files ?fs) = ?failed"
    by (rule survivors_undersized)
  have "filter (undersized mw mh) (image_files ?fs) = []
      \<and> filter is_unlink (events r2) = []
      \<and> (\<forall>d k e. outcome r2 = Completed d k e \<longrightarrow> d = 0)
      \<and> after r2 = after r1"
    if "filter is_delete_error (events r1) = []"
  proof -
    from that have "length (filter is_delete_error (events r1)) = 0" by simp
    then have "?failed = []"
      by (simp add: assms(1) delete_errors_run)
    with left have none: "filter (undersized mw mh) (image_files ?fs) = []" by simp
    then have ok: "\<forall>f \<in> set (image_files ?fs). \<not> undersized mw mh f"
      by (simp add: filter_empty_conv)
    have r2: "r2 = delete_small_images p mw mh False (Directory ?fs)"
      by (simp only: assms(2) fs)
    from no_undersized_run [OF ok, of p False] none show ?thesis
      by (simp add: r2 fs)
  qed
  with fs left show ?thesis by blast
qed

theorem second_run_finds_only_failed_deletions_witness:
  "outcome (delete_small_images ''pics'' 400 400 False (Directory sound_pics)) = Completed 1 2 1
   \<and> after (delete_small_images ''pics'' 400 400 False (Directory sound_pics)) =
       Directory [a_jpg, notes_txt, c_webp, thumbs_png, e_bmp]
   \<and> filter is_unlink (events (delete_small_images ''pics'' 400 400 False
        (after (delete_small_images ''pics'' 400 400 False (Directory sound_pics))))) = []
   \<and> outcome (delete_small_images ''pics'' 400 400 False
        (after (delete_small_images ''pics'' 400 400 False (Directory sound_pics)))) =
       Completed 0 2 1"
proof -
  let ?r1 = "delete_small_images ''pics'' 400 400 False (Directory sound_pics)"
  have 1: "outcome ?r1 = Completed 1 2 1" by code_simp
  have 2: "after ?r1 = Directory [a_jpg, notes_txt, c_webp, thumbs_png, e_bmp]" by code_simp
  have quiet: "filter is_delete_error (events ?r1) = []" by code_simp
  have 4: "outcome (delete_small_images ''pics'' 400 400 False
      (Directory [a_jpg, notes_txt, c_webp, thumbs_png, e_bmp])) = Completed 0 2 1"
    by code_simp
  from second_run_finds_only_failed_deletions [OF refl refl, of "''pics''" 400 400 sound_pics] quiet
  have 3: "filter is_unlink (events (delete_small_images ''pics'' 400 400 False (after ?r1))) = []"
    by blast
  from 1 2 3 4 show ?thesis by simp
qed

text \<open>
  C8, as the claim states it, fails: \<^verbatim>\<open>d.GIF\<close> is 100 by 900 and its unlink raises. The
  first run completes with one error and the file is still there; the second run finds
  it undersized again and tries to unlink it.
\<close>

theorem second_run_finds_undersized_counterexample:
  "outcome (delete_small_images ''pics'' 400 400 False (Directory [d_gif])) = Completed 0 0 1
   \<and> after (delete_small_images ''pics'' 400 400 False (Directory [d_gif])) = Directory [d_gif]
   \<and> filter (undersized 400 400) (image_files [d_gif]) = [d_gif]
   \<and> filter is_unlink (events (delete_small_images ''pics'' 400 400 False
        (after (delete_small_images ''pics'' 400 400 False (Directory [d_gif]))))) =
       [Unlink ''d.GIF'']
   \<and> outcome (delete_small_images ''pics'' 400 400 False
        (after (delete_small_images ''pics'' 400 400 False (Directory [d_gif])))) =
       Completed 0 0 1"
proof -
  let ?r1 = "delete_small_images ''pics'' 400 400 False (Directory [d_gif])"
  have 1: "outcome ?r1 = Completed 0 0 1" by code_simp
  have 2: "after ?r1 = Directory [d_gif]" by code_simp
  have 3: "filter (undersized 400 400) (image_files [d_gif]) = [d_gif]" by code_simp
  have 4: "filter is_unlink (events ?r1) = [Unlink ''d.GIF'']" by code_simp
  from 1 2 3 4 show ?thesis by simp
qed

end
